theory Spec2Isabelle
  imports Main
begin

section \<open>JavaScript numbers that hold integers\<close>

text \<open>
  Every number the delta resolver handles is an IEEE-754 double that holds an integer
  (lamport balances, raw token amounts) or one of the special values. \<open>Fin n\<close> is the
  double whose value is the integer \<open>n\<close>; the arithmetic below rounds to the 53-bit
  significand (round to nearest, ties to even) as the machine does, and a result of
  magnitude \<open>2\<^sup>1\<^sup>0\<^sup>2\<^sup>4\<close> or more is an infinity. A number given as input (a balance)
  is a double already, so its \<open>n\<close> is representable. Negative zero is identified with
  zero: subtraction and comparison do not tell them apart.
\<close>

datatype jsnum = Fin int | PInf | NInf | NaN

text \<open>The number of binary digits of a positive integer.\<close>

function bits :: "int \<Rightarrow> nat" where
  "bits n = (if n \<le> 0 then 0 else Suc (bits (n div 2)))"
  by pat_completeness auto
termination
  by (relation "measure nat") auto

declare bits.simps [simp del]

definition round53 :: "int \<Rightarrow> int" where
  "round53 x =
     (if \<bar>x\<bar> < 2 ^ 53 then x
      else let a = \<bar>x\<bar>;
               e = bits a - 53;
               q = a div 2 ^ e;
               r = a mod 2 ^ e;
               h = 2 ^ (e - 1);
               q' = (if h < r \<or> (r = h \<and> odd q) then q + 1 else q)
           in sgn x * (q' * 2 ^ e))"

definition jsnum_of_int :: "int \<Rightarrow> jsnum" where
  "jsnum_of_int x =
     (let r = round53 x
      in if 2 ^ 1024 \<le> r then PInf else if r \<le> - (2 ^ 1024) then NInf else Fin r)"

text \<open>The operator \<^verbatim>\<open>a - b\<close> on numbers.\<close>

fun jsub :: "jsnum \<Rightarrow> jsnum \<Rightarrow> jsnum" where
  "jsub NaN b = NaN"
| "jsub a NaN = NaN"
| "jsub (Fin a) (Fin b) = jsnum_of_int (a - b)"
| "jsub (Fin a) PInf = NInf"
| "jsub (Fin a) NInf = PInf"
| "jsub PInf PInf = NaN"
| "jsub PInf b = PInf"
| "jsub NInf NInf = NaN"
| "jsub NInf b = NInf"

text \<open>The operator \<^verbatim>\<open>a > b\<close> on numbers: false as soon as one side is NaN.\<close>

fun jgt :: "jsnum \<Rightarrow> jsnum \<Rightarrow> bool" where
  "jgt NaN b = False"
| "jgt a NaN = False"
| "jgt (Fin a) (Fin b) = (b < a)"
| "jgt (Fin a) PInf = False"
| "jgt (Fin a) NInf = True"
| "jgt PInf PInf = False"
| "jgt PInf b = True"
| "jgt NInf b = False"

subsection \<open>\<^verbatim>\<open>Number(string)\<close> on decimal integer literals\<close>

definition isDigit :: "char \<Rightarrow> bool" where
  "isDigit c = (48 \<le> (of_char c :: nat) \<and> (of_char c :: nat) \<le> 57)"

definition digitVal :: "char \<Rightarrow> int" where
  "digitVal c = int (of_char c) - 48"

definition isDigits :: "string \<Rightarrow> bool" where
  "isDigits s = (s \<noteq> [] \<and> list_all isDigit s)"

definition decimalValue :: "string \<Rightarrow> int" where
  "decimalValue s = foldl (\<lambda>a c. 10 * a + digitVal c) 0 s"

text \<open>
  A JavaScript string is a sequence of UTF-16 code units. The strings that come from the
  node (addresses, mints, amounts) are kept as \<open>string\<close>, one \<open>char\<close> for each code unit
  (so every code unit is below 256), and so is the text of the recipient box, which is
  only compared with addresses. What the user types into the signature box is trimmed
  and matched against a pattern; it may hold any code unit and is a list of code units,
  each a natural number. \<open>unitsOf\<close> gives the code units of a \<open>string\<close>.
\<close>

definition unitsOf :: "string \<Rightarrow> nat list" where
  "unitsOf s = map of_char s"

text \<open>
  The code units that \<^verbatim>\<open>String.prototype.trim\<close> and \<^verbatim>\<open>Number\<close> strip: the white space
  and line terminators of the language. These are tab, line feed, vertical tab, form
  feed, carriage return, space, U+00A0, U+1680, U+2000 to U+200A, U+2028, U+2029, U+202F,
  U+205F, U+3000 and U+FEFF.
\<close>

definition isSpaceUnit :: "nat \<Rightarrow> bool" where
  "isSpaceUnit n =
     ((9 \<le> n \<and> n \<le> 13) \<or> n = 32 \<or> n = 160 \<or> n = 5760 \<or> (8192 \<le> n \<and> n \<le> 8202)
      \<or> n = 8232 \<or> n = 8233 \<or> n = 8239 \<or> n = 8287 \<or> n = 12288 \<or> n = 65279)"

definition isSpace :: "char \<Rightarrow> bool" where
  "isSpace c = isSpaceUnit (of_char c)"

text \<open>\<^verbatim>\<open>trim\<close>: the elements satisfying \<open>P\<close> are removed from both ends.\<close>

definition trimBy :: "('a \<Rightarrow> bool) \<Rightarrow> 'a list \<Rightarrow> 'a list" where
  "trimBy P s = rev (dropWhile P (rev (dropWhile P s)))"

text \<open>
  \<^verbatim>\<open>Number(s)\<close>: the empty (or blank) string is 0, an optionally signed run of decimal
  digits is the nearest double to its value, and a string that is no numeric literal is
  NaN. The data model gives the raw amount of a token balance as a decimal integer
  string, and that is the part of the conversion modelled: the other numeric literals of
  the language (fractions, exponents, hexadecimal, \<^verbatim>\<open>Infinity\<close>) yield values that need not
  be integers; they are sent to NaN here and lie outside the model.
\<close>

definition Number_str :: "string \<Rightarrow> jsnum" where
  "Number_str s =
     (let t = trimBy isSpace s
      in if t = [] then Fin 0
         else if isDigits t then jsnum_of_int (decimalValue t)
         else if hd t = CHR ''+'' \<and> isDigits (tl t) then jsnum_of_int (decimalValue (tl t))
         else if hd t = CHR ''-'' \<and> isDigits (tl t) then jsnum_of_int (- decimalValue (tl t))
         else NaN)"

section \<open>Data contracts (\<^verbatim>\<open>types/solana.ts\<close>)\<close>

record UiTokenAmount =
  amount :: string
  decimals :: nat

record TokenBalance =
  accountIndex :: nat
  mint :: string
  owner :: "string option"
  uiTokenAmount :: UiTokenAmount

record AccountMetaKey =
  pubkey :: string
  signer :: bool
  writable :: bool

text \<open>
  \<^verbatim>\<open>parsed\<close> has type \<^verbatim>\<open>any\<close>; the application only reads \<^verbatim>\<open>parsed.info.source\<close>,
  \<^verbatim>\<open>.authority\<close> and \<^verbatim>\<open>.owner\<close>, each possibly missing.
\<close>

record ParsedInfo =
  source :: "string option"
  authority :: "string option"
  info_owner :: "string option"

record Parsed =
  info :: "ParsedInfo option"

record ParsedInstruction =
  program :: string
  programId :: string
  parsed :: "Parsed option"

record TransactionMessage =
  accountKeys :: "AccountMetaKey list"
  instructions :: "ParsedInstruction list"

record GetTransactionMeta =
  fee :: jsnum
  preBalances :: "jsnum list"
  postBalances :: "jsnum list"
  preTokenBalances :: "TokenBalance list option"
  postTokenBalances :: "TokenBalance list option"

record GetTransactionResponse =
  slot :: nat
  blockTime :: "nat option"
  meta :: "GetTransactionMeta option"
  message :: TransactionMessage
  signatures :: "string list"

section \<open>Helpers of the language\<close>

text \<open>A string used as a condition: \<^verbatim>\<open>undefined\<close> and the empty string are falsy.\<close>

definition truthy :: "string option \<Rightarrow> bool" where
  "truthy r = (case r of None \<Rightarrow> False | Some s \<Rightarrow> s \<noteq> [])"

text \<open>\<^verbatim>\<open>a || b\<close> on optional strings.\<close>

definition orElse :: "string option \<Rightarrow> string option \<Rightarrow> string option" where
  "orElse a b = (if truthy a then a else b)"

text \<open>\<^verbatim>\<open>xs[i] ?? 0\<close>: a read past the end of an array is \<^verbatim>\<open>undefined\<close>, replaced by 0.\<close>

definition nthOrZero :: "jsnum list \<Rightarrow> nat \<Rightarrow> jsnum" where
  "nthOrZero xs i = (if i < length xs then xs ! i else Fin 0)"

text \<open>\<^verbatim>\<open>message.accountKeys[i]?.pubkey\<close>, for an index that may be negative or too large.\<close>

definition pubkeyAt :: "AccountMetaKey list \<Rightarrow> int \<Rightarrow> string option" where
  "pubkeyAt keys i =
     (if 0 \<le> i \<and> nat i < length keys then Some (pubkey (keys ! nat i)) else None)"

section \<open>Native path: \<^verbatim>\<open>findDeltaSOL\<close>\<close>

record SolDelta =
  index :: int
  deltaLamports :: jsnum

text \<open>
  The \<^verbatim>\<open>for\<close> loop of \<^verbatim>\<open>findDeltaSOL\<close> from counter \<open>i\<close> on, with the running
  \<^verbatim>\<open>bestIdx\<close> and \<^verbatim>\<open>bestDelta\<close>; the bound is \<^verbatim>\<open>preBalances.length\<close>.
\<close>

function solLoop ::
  "GetTransactionMeta \<Rightarrow> TransactionMessage \<Rightarrow> string option \<Rightarrow> nat \<Rightarrow> int \<Rightarrow> jsnum \<Rightarrow> SolDelta"
where
  "solLoop m msg recipient i bestIdx bestDelta =
     (if i < length (preBalances m) then
        (let delta = jsub (nthOrZero (postBalances m) i) (nthOrZero (preBalances m) i)
         in if truthy recipient then
              (if pubkeyAt (accountKeys msg) (int i) = recipient
               then \<lparr>index = int i, deltaLamports = delta\<rparr>
               else solLoop m msg recipient (Suc i) bestIdx bestDelta)
            else if jgt delta bestDelta
              then solLoop m msg recipient (Suc i) (int i) delta
              else solLoop m msg recipient (Suc i) bestIdx bestDelta)
      else if truthy recipient then \<lparr>index = - 1, deltaLamports = Fin 0\<rparr>
      else \<lparr>index = bestIdx, deltaLamports = bestDelta\<rparr>)"
  by pat_completeness auto
termination
  by (relation "measure (\<lambda>(m, msg, recipient, i, bestIdx, bestDelta). length (preBalances m) - i)")
     auto

declare solLoop.simps [simp del]

definition findDeltaSOL ::
  "GetTransactionMeta \<Rightarrow> TransactionMessage \<Rightarrow> string option \<Rightarrow> SolDelta" where
  "findDeltaSOL m msg recipient = solLoop m msg recipient 0 (- 1) (Fin 0)"

section \<open>Token path: \<^verbatim>\<open>findDeltaSPL\<close>\<close>

text \<open>A number below \<open>10\<^sup>2\<^sup>1\<close> in a template string: its decimal digits.\<close>

fun decimalString :: "nat \<Rightarrow> string" where
  "decimalString n =
     (if n < 10 then [char_of (48 + n)]
      else decimalString (n div 10) @ [char_of (48 + n mod 10)])"

declare decimalString.simps [simp del]

text \<open>\<^verbatim>\<open>key(b)\<close>, the template \<^verbatim>\<open>`${b.accountIndex}:${b.mint}`\<close>.\<close>

definition key :: "TokenBalance \<Rightarrow> string" where
  "key b = decimalString (accountIndex b) @ '':'' @ mint b"

text \<open>
  \<^verbatim>\<open>new Map(pre.map((b) => [key(b), b]))\<close>: the entries are inserted in order, a later
  one replacing an earlier one with the same key.
\<close>

definition preMapOf :: "TokenBalance list \<Rightarrow> (string \<rightharpoonup> TokenBalance)" where
  "preMapOf pre = foldl (\<lambda>mp b. mp(key b \<mapsto> b)) Map.empty pre"

record SplDelta =
  res_accountIndex :: nat
  res_mint :: string
  res_decimals :: nat
  res_delta :: jsnum
  res_owner :: "string option"

text \<open>
  The locals of one iteration: \<^verbatim>\<open>amountPost\<close>, \<^verbatim>\<open>amountPre\<close> (\<^verbatim>\<open>Number(0)\<close> when the
  lookup finds nothing) and \<^verbatim>\<open>delta\<close>. The field \<^verbatim>\<open>decimals\<close> is required by the
  interface, so \<^verbatim>\<open>?? 0\<close> on it never applies.
\<close>

definition amountPre :: "(string \<rightharpoonup> TokenBalance) \<Rightarrow> TokenBalance \<Rightarrow> jsnum" where
  "amountPre preMap pb =
     (case preMap (key pb) of
        None \<Rightarrow> Fin 0
      | Some p \<Rightarrow> Number_str (amount (uiTokenAmount p)))"

definition deltaOf :: "(string \<rightharpoonup> TokenBalance) \<Rightarrow> TokenBalance \<Rightarrow> jsnum" where
  "deltaOf preMap pb = jsub (Number_str (amount (uiTokenAmount pb))) (amountPre preMap pb)"

definition candidate :: "(string \<rightharpoonup> TokenBalance) \<Rightarrow> TokenBalance \<Rightarrow> SplDelta" where
  "candidate preMap pb =
     \<lparr>res_accountIndex = accountIndex pb, res_mint = mint pb,
      res_decimals = decimals (uiTokenAmount pb), res_delta = deltaOf preMap pb,
      res_owner = owner pb\<rparr>"

definition bestDeltaOr0 :: "SplDelta option \<Rightarrow> jsnum" where
  "bestDeltaOr0 best = (case best of None \<Rightarrow> Fin 0 | Some b \<Rightarrow> res_delta b)"

fun splLoop ::
  "(string \<rightharpoonup> TokenBalance) \<Rightarrow> TransactionMessage \<Rightarrow> string option \<Rightarrow> TokenBalance list
     \<Rightarrow> SplDelta option \<Rightarrow> SplDelta option"
where
  "splLoop preMap msg recipient [] best = best"
| "splLoop preMap msg recipient (pb # rest) best =
     (if truthy recipient then
        (if owner pb = recipient \<or> pubkeyAt (accountKeys msg) (int (accountIndex pb)) = recipient
         then Some (candidate preMap pb)
         else splLoop preMap msg recipient rest best)
      else if jgt (deltaOf preMap pb) (bestDeltaOr0 best)
        then splLoop preMap msg recipient rest (Some (candidate preMap pb))
        else splLoop preMap msg recipient rest best)"

text \<open>\<^verbatim>\<open>xs ?? []\<close> on an optional list of token balances.\<close>

definition orEmpty :: "TokenBalance list option \<Rightarrow> TokenBalance list" where
  "orEmpty xs = (case xs of None \<Rightarrow> [] | Some ys \<Rightarrow> ys)"

definition findDeltaSPL ::
  "GetTransactionMeta \<Rightarrow> TransactionMessage \<Rightarrow> string option \<Rightarrow> SplDelta option" where
  "findDeltaSPL m msg recipient =
     (let pre = orEmpty (preTokenBalances m);
          post = orEmpty (postTokenBalances m)
      in splLoop (preMapOf pre) msg recipient post None)"

text \<open>The two locals \<^verbatim>\<open>post\<close> and \<^verbatim>\<open>preMap\<close> of \<^verbatim>\<open>findDeltaSPL\<close>, as functions of the metadata.\<close>

abbreviation postEntries :: "GetTransactionMeta \<Rightarrow> TokenBalance list" where
  "postEntries m \<equiv> orEmpty (postTokenBalances m)"

abbreviation preLookup :: "GetTransactionMeta \<Rightarrow> (string \<rightharpoonup> TokenBalance)" where
  "preLookup m \<equiv> preMapOf (orEmpty (preTokenBalances m))"

section \<open>Party inferrer: \<^verbatim>\<open>inferParties\<close>\<close>

record Parties =
  sender :: "string option"
  recipient :: "string option"

text \<open>\<^verbatim>\<open>keys.find((k, i) => i > 0 && k.writable)\<close>, scanning from position \<open>i\<close>.\<close>

fun findWritable :: "nat \<Rightarrow> AccountMetaKey list \<Rightarrow> AccountMetaKey option" where
  "findWritable i [] = None"
| "findWritable i (k # ks) = (if 0 < i \<and> writable k then Some k else findWritable (Suc i) ks)"

definition inferParties :: "TransactionMessage \<Rightarrow> Parties" where
  "inferParties msg =
     (let keys = accountKeys msg;
          feePayer = pubkeyAt keys 0;
          possibleSender = feePayer;
          possibleRecipient = map_option pubkey (findWritable 0 keys)
      in \<lparr>sender = possibleSender, recipient = possibleRecipient\<rparr>)"

section \<open>Signature extraction: \<^verbatim>\<open>parseSignature\<close>\<close>

text \<open>The character class \<^verbatim>\<open>[1-9A-HJ-NP-Za-km-z]\<close>, on code units.\<close>

definition isBase58 :: "nat \<Rightarrow> bool" where
  "isBase58 n =
     ((49 \<le> n \<and> n \<le> 57) \<or> (65 \<le> n \<and> n \<le> 72) \<or> (74 \<le> n \<and> n \<le> 78)
      \<or> (80 \<le> n \<and> n \<le> 90) \<or> (97 \<le> n \<and> n \<le> 107) \<or> (109 \<le> n \<and> n \<le> 122))"

text \<open>
  The capture group \<^verbatim>\<open>([1-9A-HJ-NP-Za-km-z]{87,88})\<close> at the head of \<open>s\<close>: greedy, so 88
  characters when that many are in the class, else 87, else no match. Nothing follows the
  group in the pattern, so the longest match is the one returned.
\<close>

definition sigAt :: "nat list \<Rightarrow> nat list option" where
  "sigAt s =
     (let n = length (takeWhile isBase58 s)
      in if 88 \<le> n then Some (take 88 s) else if 87 \<le> n then Some (take 87 s) else None)"

definition afterLiteral :: "nat list \<Rightarrow> nat list \<Rightarrow> nat list option" where
  "afterLiteral lit s = (if take (length lit) s = lit then Some (drop (length lit) s) else None)"

definition sigAfter :: "nat list \<Rightarrow> nat list \<Rightarrow> nat list option" where
  "sigAfter lit s = (case afterLiteral lit s of None \<Rightarrow> None | Some rest \<Rightarrow> sigAt rest)"

text \<open>
  One attempt of the whole pattern at one position of the subject; \<open>atStart\<close> says
  whether the position is the start of the string, where alone \<^verbatim>\<open>^\<close> matches. The
  alternatives are tried in the order written.
\<close>

definition matchAt :: "bool \<Rightarrow> nat list \<Rightarrow> nat list option" where
  "matchAt atStart s =
     (case sigAfter (unitsOf ''solscan.io/tx/'') s of Some g \<Rightarrow> Some g | None \<Rightarrow>
      (case sigAfter (unitsOf ''explorer.solana.com/tx/'') s of Some g \<Rightarrow> Some g | None \<Rightarrow>
       (case sigAfter (unitsOf ''solanafm.com/tx/'') s of Some g \<Rightarrow> Some g | None \<Rightarrow>
        (if atStart then sigAt s else None))))"

text \<open>The three literal alternatives of the pattern.\<close>

definition explorerLiterals :: "nat list set" where
  "explorerLiterals =
     {unitsOf ''solscan.io/tx/'', unitsOf ''explorer.solana.com/tx/'', unitsOf ''solanafm.com/tx/''}"

text \<open>\<^verbatim>\<open>String.prototype.match\<close>: the leftmost position at which the pattern matches.\<close>

fun matchFrom :: "bool \<Rightarrow> nat list \<Rightarrow> nat list option" where
  "matchFrom atStart [] = matchAt atStart []"
| "matchFrom atStart (c # cs) =
     (case matchAt atStart (c # cs) of Some g \<Rightarrow> Some g | None \<Rightarrow> matchFrom False cs)"

definition parseSignature :: "nat list \<Rightarrow> nat list option" where
  "parseSignature input =
     (let trimmed = trimBy isSpaceUnit input
      in if trimmed = [] then None else matchFrom True trimmed)"

definition buildExplorerUrl :: "nat list \<Rightarrow> nat list" where
  "buildExplorerUrl sig = unitsOf ''https://solscan.io/tx/'' @ sig"

section \<open>The dispatcher: \<^verbatim>\<open>handleFetch\<close> in \<^verbatim>\<open>App.tsx\<close>\<close>

text \<open>
  The \<^verbatim>\<open>report\<close> object, by its \<^verbatim>\<open>type\<close> tag. The two display quotients
  (\<^verbatim>\<open>amountUi\<close>, \<^verbatim>\<open>amountSOL\<close>) are fractional doubles and are left out; the raw amounts
  they are computed from are kept.
\<close>

datatype Report =
    ReportUnknown
  | ReportSpl string jsnum nat "string option"
  | ReportSol jsnum "string option"
  | ReportNone Parties

definition recipientArg :: "string \<Rightarrow> string option" where
  "recipientArg rcp = (if rcp \<noteq> [] then Some rcp else None)"

definition buildReport :: "GetTransactionMeta \<Rightarrow> TransactionMessage \<Rightarrow> string \<Rightarrow> Report" where
  "buildReport m msg rcp =
     (let spl = findDeltaSPL m msg (recipientArg rcp);
          sol = findDeltaSOL m msg (recipientArg rcp)
      in if (case spl of None \<Rightarrow> False | Some s \<Rightarrow> jgt (res_delta s) (Fin 0)) then
           (case spl of
              None \<Rightarrow> ReportUnknown
            | Some s \<Rightarrow>
                ReportSpl (res_mint s) (res_delta s) (res_decimals s)
                  (orElse (orElse (Some rcp) (res_owner s))
                     (pubkeyAt (accountKeys msg) (int (res_accountIndex s)))))
         else if jgt (deltaLamports sol) (Fin 0) then
           ReportSol (deltaLamports sol)
             (orElse (Some rcp) (pubkeyAt (accountKeys msg) (index sol)))
         else ReportNone (inferParties msg))"

text \<open>\<^verbatim>\<open>(report as any).recipient\<close>.\<close>

fun reportRecipient :: "Report \<Rightarrow> string option" where
  "reportRecipient ReportUnknown = None"
| "reportRecipient (ReportSpl mnt amt dec rc) = rc"
| "reportRecipient (ReportSol amt rc) = rc"
| "reportRecipient (ReportNone ps) = recipient ps"

text \<open>\<^verbatim>\<open>ix.parsed?.info\<close>, and the arrow function of \<^verbatim>\<open>instructions.find\<close> testing it.\<close>

definition infoOf :: "ParsedInstruction \<Rightarrow> ParsedInfo option" where
  "infoOf ix = (case parsed ix of None \<Rightarrow> None | Some p \<Rightarrow> info p)"

definition hasInfo :: "ParsedInstruction \<Rightarrow> bool" where
  "hasInfo ix = (infoOf ix \<noteq> None)"

text \<open>
  The sender of the report. In this typed model no step of the \<^verbatim>\<open>try\<close> block can
  throw, so the \<^verbatim>\<open>catch\<close> branch (which also yields \<^verbatim>\<open>inferParties(message).sender\<close>)
  has no counterpart.
\<close>

definition refineSender :: "TransactionMessage \<Rightarrow> string option" where
  "refineSender msg =
     (let parsedIx = find hasInfo (instructions msg);
          inf = (case parsedIx of None \<Rightarrow> None | Some ix \<Rightarrow> infoOf ix)
      in orElse
           (orElse
              (orElse (case inf of None \<Rightarrow> None | Some i \<Rightarrow> source i)
                      (case inf of None \<Rightarrow> None | Some i \<Rightarrow> authority i))
              (case inf of None \<Rightarrow> None | Some i \<Rightarrow> info_owner i))
           (sender (inferParties msg)))"

datatype Asset = AssetSPL string jsnum nat | AssetSOL jsnum | AssetUnknown

fun assetOf :: "Report \<Rightarrow> Asset" where
  "assetOf (ReportSpl mnt amt dec rc) = AssetSPL mnt amt dec"
| "assetOf (ReportSol amt rc) = AssetSOL amt"
| "assetOf ReportUnknown = AssetUnknown"
| "assetOf (ReportNone ps) = AssetUnknown"

text \<open>
  The object passed to \<^verbatim>\<open>setAnalysis\<close>. The time is kept unformatted: \<open>None\<close> stands
  for the dash shown when \<^verbatim>\<open>blockTime\<close> is missing or 0.
\<close>

record Analysis =
  signature :: "nat list"
  explorerUrl :: "nat list"
  a_slot :: nat
  a_time :: "nat option"
  feeLamports :: jsnum
  a_sender :: "string option"
  a_recipient :: "string option"
  asset :: Asset

definition analyse :: "nat list \<Rightarrow> GetTransactionResponse \<Rightarrow> GetTransactionMeta \<Rightarrow> string \<Rightarrow> Analysis" where
  "analyse sig res m rcp =
     (let report = buildReport m (message res) rcp
      in \<lparr>signature = sig, explorerUrl = buildExplorerUrl sig, a_slot = slot res,
          a_time = (case blockTime res of None \<Rightarrow> None
                    | Some t \<Rightarrow> if t = 0 then None else Some t),
          feeLamports = fee m,
          a_sender = refineSender (message res), a_recipient = reportRecipient report,
          asset = assetOf report\<rparr>)"

text \<open>
  What \<^verbatim>\<open>rpcGetTransaction\<close> can do: throw an error with some message, or return a
  response or \<^verbatim>\<open>null\<close>. The messages shown to the user are the entries of the locale
  table, named here by their keys.
\<close>

datatype RpcResult = RpcThrows string | RpcReturns "GetTransactionResponse option"

datatype ErrorMsg = ValidTxLink | NoTxOrRPC | NoMetadata | RpcError | Thrown string

record AppState =
  error :: "ErrorMsg option"
  tx :: "GetTransactionResponse option"
  analysis :: "Analysis option"
  loading :: bool
  rpcCalls :: "nat list list"

text \<open>
  \<^verbatim>\<open>handleFetch\<close> with the component's state made explicit: it takes the RPC
  collaborator, the text of the input box, the text of the recipient box and the state
  before the call, and returns the state after it. \<open>rpcCalls\<close> is the trace of the
  signatures sent to the node. An error thrown inside the \<^verbatim>\<open>try\<close> block is shown by its
  message, or by the \<^verbatim>\<open>rpcError\<close> entry when the message is empty.
\<close>

definition handleFetch ::
  "(nat list \<Rightarrow> RpcResult) \<Rightarrow> nat list \<Rightarrow> string \<Rightarrow> AppState \<Rightarrow> AppState" where
  "handleFetch rpc input rcp st =
     (let st0 = st\<lparr>error := None, tx := None, analysis := None\<rparr>;
          sig = (case parseSignature input of None \<Rightarrow> [] | Some g \<Rightarrow> g)
      in if sig = [] then st0\<lparr>error := Some ValidTxLink\<rparr>
         else
           (let st1 = st0\<lparr>loading := True, rpcCalls := rpcCalls st0 @ [sig]\<rparr>
            in case rpc sig of
                 RpcThrows msg \<Rightarrow>
                   st1\<lparr>error := Some (if msg \<noteq> [] then Thrown msg else RpcError),
                       loading := False\<rparr>
               | RpcReturns None \<Rightarrow> st1\<lparr>error := Some NoTxOrRPC, loading := False\<rparr>
               | RpcReturns (Some res) \<Rightarrow>
                   (case meta res of
                      None \<Rightarrow> st1\<lparr>error := Some NoMetadata, loading := False\<rparr>
                    | Some m \<Rightarrow>
                        st1\<lparr>tx := Some res, analysis := Some (analyse sig res m rcp),
                            loading := False\<rparr>)))"

section \<open>The token delta as the specification states it\<close>

text \<open>
  The delta as section 4.2 of the specification states it: the exact integer difference
  \<open>rawAmount(post) - rawAmount(pre-or-zero)\<close>, the pre-state record being the one with the
  same \<open>(accountIndex, mint)\<close> (the last such record, should the list repeat a pair).
\<close>

definition spec_deltaRaw :: "TokenBalance list \<Rightarrow> TokenBalance \<Rightarrow> int" where
  "spec_deltaRaw pre pb =
     decimalValue (amount (uiTokenAmount pb))
     - (case find (\<lambda>p. accountIndex p = accountIndex pb \<and> mint p = mint pb) (rev pre) of
          None \<Rightarrow> 0
        | Some p \<Rightarrow> decimalValue (amount (uiTokenAmount p)))"

section \<open>The sender refinement as the specification states it\<close>

text \<open>
  The sender as section 4.5 of the specification words it: the first instruction whose
  parsed info carries a \<^verbatim>\<open>source\<close>, \<^verbatim>\<open>authority\<close> or \<^verbatim>\<open>owner\<close> field supplies the
  sender (fields taken in that order); the party inferrer's guess is used only when no
  instruction carries any of them.
\<close>

definition carriesSenderField :: "ParsedInstruction \<Rightarrow> bool" where
  "carriesSenderField ix =
     (case infoOf ix of
        None \<Rightarrow> False
      | Some i \<Rightarrow> truthy (source i) \<or> truthy (authority i) \<or> truthy (info_owner i))"

definition spec_refinedSender :: "TransactionMessage \<Rightarrow> string option" where
  "spec_refinedSender msg =
     (case find carriesSenderField (instructions msg) of
        None \<Rightarrow> sender (inferParties msg)
      | Some ix \<Rightarrow>
          (case infoOf ix of
             None \<Rightarrow> sender (inferParties msg)
           | Some i \<Rightarrow> orElse (orElse (source i) (authority i)) (info_owner i)))"

section \<open>Sample transactions\<close>

definition sampleKeys :: "AccountMetaKey list" where
  "sampleKeys = [\<lparr>pubkey = ''A'', signer = True, writable = True\<rparr>,
                 \<lparr>pubkey = ''B'', signer = False, writable = True\<rparr>,
                 \<lparr>pubkey = ''C'', signer = False, writable = False\<rparr>]"

definition sampleMessage :: TransactionMessage where
  "sampleMessage = \<lparr>accountKeys = sampleKeys, instructions = []\<rparr>"

definition tokenEntry :: "nat \<Rightarrow> string option \<Rightarrow> string \<Rightarrow> TokenBalance" where
  "tokenEntry i own amt =
     \<lparr>accountIndex = i, mint = ''M'', owner = own, uiTokenAmount = \<lparr>amount = amt, decimals = 6\<rparr>\<rparr>"

definition sampleMeta :: "TokenBalance list \<Rightarrow> TokenBalance list \<Rightarrow> GetTransactionMeta" where
  "sampleMeta pre post =
     \<lparr>fee = Fin 5000, preBalances = [Fin 1000, Fin 500, Fin 0],
      postBalances = [Fin 900, Fin 600, Fin 0],
      preTokenBalances = Some pre, postTokenBalances = Some post\<rparr>"

definition parsedWith :: "string option \<Rightarrow> string option \<Rightarrow> string option \<Rightarrow> ParsedInstruction" where
  "parsedWith src auth own =
     \<lparr>program = ''system'', programId = ''11111111111111111111111111111111'',
      parsed = Some \<lparr>info = Some \<lparr>source = src, authority = auth, info_owner = own\<rparr>\<rparr>\<rparr>"

definition unparsed :: ParsedInstruction where
  "unparsed = \<lparr>program = ''unknown'', programId = ''ComputeBudget111111111111111111111111111111'',
      parsed = None\<rparr>"

definition sampleSignature :: string where
  "sampleSignature = ''MASi45ub7Qe4ZE36UT5G6cU4ud8Fhhe4deS4F3cw9KTAb8dLcukC7edhDQ7cn5d4gEYkbUrMWeWQLGsCmrG6dLaY''"

text \<open>The state of the component before any fetch.\<close>

definition idleState :: AppState where
  "idleState = \<lparr>error = None, tx = None, analysis = None, loading = False, rpcCalls = []\<rparr>"

section \<open>Properties of the native path\<close>

lemma solLoop_found:
  assumes "truthy r" and "k < length (preBalances m)"
    and "pubkeyAt (accountKeys msg) (int k) = r"
  shows "i \<le> k \<Longrightarrow> (\<forall>j. i \<le> j \<and> j < k \<longrightarrow> pubkeyAt (accountKeys msg) (int j) \<noteq> r) \<Longrightarrow>
    solLoop m msg r i bi bd =
      \<lparr>index = int k,
       deltaLamports = jsub (nthOrZero (postBalances m) k) (nthOrZero (preBalances m) k)\<rparr>"
proof (induction "k - i" arbitrary: i)
  case 0
  then have "i = k" by simp
  with assms show ?case by (subst solLoop.simps) simp
next
  case (Suc d)
  then have lt: "i < k" and ne: "pubkeyAt (accountKeys msg) (int i) \<noteq> r" by auto
  have "solLoop m msg r (Suc i) bi bd =
      \<lparr>index = int k,
       deltaLamports = jsub (nthOrZero (postBalances m) k) (nthOrZero (preBalances m) k)\<rparr>"
    using Suc by (intro Suc.hyps(1)) auto
  with lt ne assms show ?case by (subst solLoop.simps) (simp add: Let_def)
qed

lemma solLoop_absent:
  assumes "truthy r"
  shows "(\<forall>j. i \<le> j \<and> j < length (preBalances m) \<longrightarrow> pubkeyAt (accountKeys msg) (int j) \<noteq> r) \<Longrightarrow>
    solLoop m msg r i bi bd = \<lparr>index = - 1, deltaLamports = Fin 0\<rparr>"
proof (induction "length (preBalances m) - i" arbitrary: i)
  case 0
  with assms show ?case by (subst solLoop.simps) simp
next
  case (Suc d)
  then have lt: "i < length (preBalances m)" and ne: "pubkeyAt (accountKeys msg) (int i) \<noteq> r" by auto
  have "solLoop m msg r (Suc i) bi bd = \<lparr>index = - 1, deltaLamports = Fin 0\<rparr>"
    using Suc by (intro Suc.hyps(1)) auto
  with lt ne assms show ?case by (subst solLoop.simps) (simp add: Let_def)
qed

text \<open>
  The recipient scan on the accounts that have a pre-balance. With a non-empty recipient,
  when \<open>k\<close> is the first index whose address is the recipient and the snapshot holds a
  pre-balance for it, the result is index \<open>k\<close> with the delta \<open>post[k] - pre[k]\<close>,
  whatever its sign (a post-balance missing at \<open>k\<close> counts as 0); when no account has the
  recipient's address the result is the sentinel.
\<close>

lemma findDeltaSOL_recipient_within_preBalances:
  assumes "r \<noteq> []"
  shows "(k < length (accountKeys msg) \<and> k < length (preBalances m)
            \<and> pubkey (accountKeys msg ! k) = r
            \<and> (\<forall>j<k. pubkey (accountKeys msg ! j) \<noteq> r)
          \<longrightarrow> findDeltaSOL m msg (Some r) =
                \<lparr>index = int k,
                 deltaLamports = jsub (nthOrZero (postBalances m) k) (preBalances m ! k)\<rparr>)
       \<and> ((\<forall>a \<in> set (accountKeys msg). pubkey a \<noteq> r)
          \<longrightarrow> findDeltaSOL m msg (Some r) = \<lparr>index = - 1, deltaLamports = Fin 0\<rparr>)"
proof (intro conjI impI)
  have t: "truthy (Some r)" using assms(1) by (simp add: truthy_def)
  {
    assume h: "k < length (accountKeys msg) \<and> k < length (preBalances m)
            \<and> pubkey (accountKeys msg ! k) = r
            \<and> (\<forall>j<k. pubkey (accountKeys msg ! j) \<noteq> r)"
    then have a: "pubkeyAt (accountKeys msg) (int k) = Some r" by (simp add: pubkeyAt_def)
    have b: "\<forall>j. 0 \<le> j \<and> j < k \<longrightarrow> pubkeyAt (accountKeys msg) (int j) \<noteq> Some r"
      using h by (simp add: pubkeyAt_def)
    have "solLoop m msg (Some r) 0 (- 1) (Fin 0) =
      \<lparr>index = int k,
       deltaLamports = jsub (nthOrZero (postBalances m) k) (nthOrZero (preBalances m) k)\<rparr>"
      using h by (intro solLoop_found [OF t _ a _ b]) auto
    then show "findDeltaSOL m msg (Some r) =
                \<lparr>index = int k,
                 deltaLamports = jsub (nthOrZero (postBalances m) k) (preBalances m ! k)\<rparr>"
      using h by (simp add: findDeltaSOL_def nthOrZero_def)
  }
  {
    assume h: "\<forall>a \<in> set (accountKeys msg). pubkey a \<noteq> r"
    then have "\<forall>j. 0 \<le> j \<and> j < length (preBalances m) \<longrightarrow> pubkeyAt (accountKeys msg) (int j) \<noteq> Some r"
      by (simp add: pubkeyAt_def)
    then show "findDeltaSOL m msg (Some r) = \<lparr>index = - 1, deltaLamports = Fin 0\<rparr>"
      unfolding findDeltaSOL_def by (rule solLoop_absent [OF t])
  }
qed


text \<open>
  Claim C2. The claim is stated for every balance snapshot and account list, and the
  code breaks it where the snapshot has fewer pre-balances than accounts: the loop stops
  at \<^verbatim>\<open>preBalances.length\<close>, so an account beyond it is never compared with the
  recipient. With one pre-balance, two post-balances and the accounts \<open>A, B\<close>, the
  recipient \<open>B\<close> is an account of the list, yet the result is the sentinel and not
  account 1; with the missing pre-balance written out as 0 the result is account 1 with
  delta 900.
\<close>

theorem findDeltaSOL_recipient_beyond_preBalances:
  "findDeltaSOL
     \<lparr>fee = Fin 5000, preBalances = [Fin 5], postBalances = [Fin 5, Fin 900],
      preTokenBalances = None, postTokenBalances = None\<rparr>
     \<lparr>accountKeys = [\<lparr>pubkey = ''A'', signer = True, writable = True\<rparr>,
                     \<lparr>pubkey = ''B'', signer = False, writable = True\<rparr>],
      instructions = []\<rparr>
     (Some ''B'') = \<lparr>index = - 1, deltaLamports = Fin 0\<rparr>
   \<and> findDeltaSOL
     \<lparr>fee = Fin 5000, preBalances = [Fin 5, Fin 0], postBalances = [Fin 5, Fin 900],
      preTokenBalances = None, postTokenBalances = None\<rparr>
     \<lparr>accountKeys = [\<lparr>pubkey = ''A'', signer = True, writable = True\<rparr>,
                     \<lparr>pubkey = ''B'', signer = False, writable = True\<rparr>],
      instructions = []\<rparr>
     (Some ''B'') = \<lparr>index = 1, deltaLamports = Fin 900\<rparr>"
  by (simp add: findDeltaSOL_def solLoop.simps truthy_def nthOrZero_def pubkeyAt_def
      jsnum_of_int_def round53_def)

text \<open>
  Claim C3. The loop of \<^verbatim>\<open>findDeltaSOL\<close> runs up to \<^verbatim>\<open>preBalances.length\<close>, so an
  account whose index has no entry in \<^verbatim>\<open>preBalances\<close> is never looked at, although
  the loop body reads \<^verbatim>\<open>preBalances[i] ?? 0\<close>. With no pre-balance, one post-balance of
  100 and one account \<open>A\<close>, the result is the sentinel both without a recipient and with
  recipient \<open>A\<close>; with the missing pre-balance written out as 0 the result is account 0
  with delta 100.
\<close>

theorem findDeltaSOL_short_preBalances:
  "findDeltaSOL
     \<lparr>fee = Fin 5000, preBalances = [], postBalances = [Fin 100],
      preTokenBalances = None, postTokenBalances = None\<rparr>
     \<lparr>accountKeys = [\<lparr>pubkey = ''A'', signer = True, writable = True\<rparr>], instructions = []\<rparr>
     None = \<lparr>index = - 1, deltaLamports = Fin 0\<rparr>
   \<and> findDeltaSOL
     \<lparr>fee = Fin 5000, preBalances = [], postBalances = [Fin 100],
      preTokenBalances = None, postTokenBalances = None\<rparr>
     \<lparr>accountKeys = [\<lparr>pubkey = ''A'', signer = True, writable = True\<rparr>], instructions = []\<rparr>
     (Some ''A'') = \<lparr>index = - 1, deltaLamports = Fin 0\<rparr>
   \<and> findDeltaSOL
     \<lparr>fee = Fin 5000, preBalances = [Fin 0], postBalances = [Fin 100],
      preTokenBalances = None, postTokenBalances = None\<rparr>
     \<lparr>accountKeys = [\<lparr>pubkey = ''A'', signer = True, writable = True\<rparr>], instructions = []\<rparr>
     None = \<lparr>index = 0, deltaLamports = Fin 100\<rparr>"
  by (simp add: findDeltaSOL_def solLoop.simps truthy_def nthOrZero_def pubkeyAt_def
      jsnum_of_int_def round53_def)

section \<open>Properties of the party inferrer\<close>

lemma findWritable_pos: "0 < i \<Longrightarrow> findWritable i ks = find writable ks"
  by (induction ks arbitrary: i) auto

lemma findWritable_0: "findWritable 0 ks = find writable (tl ks)"
  by (cases ks) (simp_all add: findWritable_pos)

lemma inferParties_find:
  "inferParties msg =
     \<lparr>sender = (case accountKeys msg of [] \<Rightarrow> None | k # ks \<Rightarrow> Some (pubkey k)),
      recipient = map_option pubkey (find writable (tl (accountKeys msg)))\<rparr>"
  by (simp add: inferParties_def findWritable_0 pubkeyAt_def split: list.splits)

text \<open>
  Claim C8. \<^verbatim>\<open>inferParties\<close> returns as sender the address at index 0 (none for an
  empty account list), and as recipient the address of the first account at an index
  greater than 0 whose \<^verbatim>\<open>writable\<close> flag is set, none when there is no such account. For
  the account list \<open>[a, b]\<close> with \<open>b\<close> writable it returns sender \<open>a\<close> and recipient \<open>b\<close>.
\<close>

theorem inferParties_contract:
  "(accountKeys msg \<noteq> [] \<longrightarrow> sender (inferParties msg) = Some (pubkey (accountKeys msg ! 0)))
   \<and> (accountKeys msg = [] \<longrightarrow> sender (inferParties msg) = None)
   \<and> (0 < k \<and> k < length (accountKeys msg) \<and> writable (accountKeys msg ! k)
        \<and> (\<forall>j. 0 < j \<and> j < k \<longrightarrow> \<not> writable (accountKeys msg ! j))
      \<longrightarrow> recipient (inferParties msg) = Some (pubkey (accountKeys msg ! k)))
   \<and> ((\<forall>j. 0 < j \<and> j < length (accountKeys msg) \<longrightarrow> \<not> writable (accountKeys msg ! j))
      \<longrightarrow> recipient (inferParties msg) = None)
   \<and> (writable b \<longrightarrow>
        inferParties \<lparr>accountKeys = [a, b], instructions = ins\<rparr>
          = \<lparr>sender = Some (pubkey a), recipient = Some (pubkey b)\<rparr>)"
proof (intro conjI impI)
  assume "accountKeys msg \<noteq> []"
  then show "sender (inferParties msg) = Some (pubkey (accountKeys msg ! 0))"
    by (cases "accountKeys msg") (simp_all add: inferParties_find)
next
  assume "accountKeys msg = []"
  then show "sender (inferParties msg) = None"
    by (simp add: inferParties_find)
next
  assume h: "0 < k \<and> k < length (accountKeys msg) \<and> writable (accountKeys msg ! k)
        \<and> (\<forall>j. 0 < j \<and> j < k \<longrightarrow> \<not> writable (accountKeys msg ! j))"
  then obtain a ks where ks: "accountKeys msg = a # ks" by (cases "accountKeys msg") auto
  obtain k' where k': "k = Suc k'" using h by (cases k) auto
  from h ks k' have "k' < length ks" "writable (ks ! k')" "\<forall>j<k'. \<not> writable (ks ! j)"
    by auto
  then have "find writable ks = Some (ks ! k')"
    unfolding find_Some_iff by blast
  then show "recipient (inferParties msg) = Some (pubkey (accountKeys msg ! k))"
    by (simp add: inferParties_find ks k')
next
  assume h: "\<forall>j. 0 < j \<and> j < length (accountKeys msg) \<longrightarrow> \<not> writable (accountKeys msg ! j)"
  have "find writable (tl (accountKeys msg)) = None"
  proof (cases "accountKeys msg")
    case Nil
    then show ?thesis by simp
  next
    case (Cons a ks)
    have "\<not> writable x" if "x \<in> set ks" for x
    proof -
      from that obtain i where "i < length ks" "x = ks ! i" by (auto simp: in_set_conv_nth)
      with h Cons show ?thesis by (auto dest: spec [of _ "Suc i"])
    qed
    with Cons show ?thesis by (simp add: find_None_iff)
  qed
  then show "recipient (inferParties msg) = None"
    by (simp add: inferParties_find)
next
  assume "writable b"
  then show "inferParties \<lparr>accountKeys = [a, b], instructions = ins\<rparr>
          = \<lparr>sender = Some (pubkey a), recipient = Some (pubkey b)\<rparr>"
    by (simp add: inferParties_find)
qed

theorem inferParties_contract_witness:
  "inferParties
     \<lparr>accountKeys = [\<lparr>pubkey = ''A'', signer = True, writable = True\<rparr>,
                     \<lparr>pubkey = ''B'', signer = False, writable = False\<rparr>,
                     \<lparr>pubkey = ''C'', signer = False, writable = True\<rparr>],
      instructions = []\<rparr> = \<lparr>sender = Some ''A'', recipient = Some ''C''\<rparr>
   \<and> inferParties
     \<lparr>accountKeys = [\<lparr>pubkey = ''A'', signer = True, writable = True\<rparr>,
                     \<lparr>pubkey = ''B'', signer = False, writable = True\<rparr>],
      instructions = []\<rparr> = \<lparr>sender = Some ''A'', recipient = Some ''B''\<rparr>
   \<and> recipient (inferParties
     \<lparr>accountKeys = [\<lparr>pubkey = ''A'', signer = True, writable = True\<rparr>,
                     \<lparr>pubkey = ''B'', signer = False, writable = False\<rparr>],
      instructions = []\<rparr>) = None"
proof -
  let ?A = "\<lparr>pubkey = ''A'', signer = True, writable = True\<rparr>"
  let ?B = "\<lparr>pubkey = ''B'', signer = False, writable = False\<rparr>"
  let ?B' = "\<lparr>pubkey = ''B'', signer = False, writable = True\<rparr>"
  let ?C = "\<lparr>pubkey = ''C'', signer = False, writable = True\<rparr>"
  let ?m1 = "\<lparr>accountKeys = [?A, ?B, ?C], instructions = []\<rparr>"
  let ?m2 = "\<lparr>accountKeys = [?A, ?B], instructions = []\<rparr>"
  have j: "(0 < j \<and> j < 2) = (j = 1)" for j :: nat by auto
  have 1: "sender (inferParties ?m1) = Some ''A''" "recipient (inferParties ?m1) = Some ''C''"
    using inferParties_contract [of ?m1 2 ?B' ?A "[]"] by (simp_all add: j)
  have 2: "inferParties \<lparr>accountKeys = [?A, ?B'], instructions = []\<rparr>
      = \<lparr>sender = Some ''A'', recipient = Some ''B''\<rparr>"
    using inferParties_contract [of ?m1 2 ?B' ?A "[]"] by simp
  have 3: "recipient (inferParties ?m2) = None"
    using inferParties_contract [of ?m2 0 ?B' ?A "[]"] by (simp add: j)
  have eq: "p = \<lparr>sender = sender p, recipient = recipient p\<rparr>" for p :: Parties by simp
  show ?thesis using 1 2 3 eq [of "inferParties ?m1"] by simp
qed

section \<open>Properties of the token path\<close>

lemma jgt_not_NaN: "jgt a b \<Longrightarrow> a \<noteq> NaN \<and> b \<noteq> NaN"
  by (cases a; cases b) simp_all

lemma jgt_total: "a \<noteq> NaN \<Longrightarrow> b \<noteq> NaN \<Longrightarrow> a \<noteq> b \<Longrightarrow> \<not> jgt a b \<Longrightarrow> jgt b a"
  by (cases a; cases b) simp_all

lemma splLoop_recipient_absent:
  assumes "truthy r"
  shows "(\<forall>pb \<in> set post. owner pb \<noteq> r \<and> pubkeyAt (accountKeys msg) (int (accountIndex pb)) \<noteq> r)
    \<Longrightarrow> splLoop pm msg r post best = best"
  using assms by (induction post) simp_all

lemma splLoop_recipient_found:
  assumes "truthy r"
  shows "k < length post \<Longrightarrow>
    owner (post ! k) = r \<or> pubkeyAt (accountKeys msg) (int (accountIndex (post ! k))) = r \<Longrightarrow>
    (\<forall>j<k. owner (post ! j) \<noteq> r \<and> pubkeyAt (accountKeys msg) (int (accountIndex (post ! j))) \<noteq> r) \<Longrightarrow>
    splLoop pm msg r post best = Some (candidate pm (post ! k))"
proof (induction post arbitrary: k)
  case Nil
  then show ?case by simp
next
  case (Cons pb rest)
  show ?case
  proof (cases k)
    case 0
    with Cons.prems assms show ?thesis by simp
  next
    case (Suc k')
    from Cons.prems(3) Suc
    have first: "owner pb \<noteq> r \<and> pubkeyAt (accountKeys msg) (int (accountIndex pb)) \<noteq> r"
      by (auto dest: spec [of _ 0])
    have rest: "\<forall>j<k'. owner (rest ! j) \<noteq> r
        \<and> pubkeyAt (accountKeys msg) (int (accountIndex (rest ! j))) \<noteq> r"
      using Cons.prems(3) Suc by (auto dest: spec [of _ "Suc j" for j])
    have "splLoop pm msg r rest best = Some (candidate pm (rest ! k'))"
      using Cons.prems(1,2) Suc rest by (intro Cons.IH) simp_all
    with first assms Suc show ?thesis by simp
  qed
qed

lemma splLoop_scan_none:
  assumes "\<not> truthy r"
  shows "(\<forall>pb \<in> set post. \<not> jgt (deltaOf pm pb) (bestDeltaOr0 best))
    \<Longrightarrow> splLoop pm msg r post best = best"
  using assms by (induction post) simp_all

lemma bestDeltaOr0_candidate [simp]: "bestDeltaOr0 (Some (candidate pm pb)) = deltaOf pm pb"
  by (simp add: bestDeltaOr0_def candidate_def)

lemma splLoop_scan_max:
  assumes "\<not> truthy r"
  shows "k < length post \<Longrightarrow>
    jgt (deltaOf pm (post ! k)) (bestDeltaOr0 best) \<Longrightarrow>
    (\<forall>pb \<in> set post. \<not> jgt (deltaOf pm pb) (deltaOf pm (post ! k))) \<Longrightarrow>
    (\<forall>j<k. deltaOf pm (post ! j) \<noteq> deltaOf pm (post ! k)) \<Longrightarrow>
    splLoop pm msg r post best = Some (candidate pm (post ! k))"
proof (induction post arbitrary: k best)
  case Nil
  then show ?case by simp
next
  case (Cons pb rest)
  show ?case
  proof (cases k)
    case 0
    have "splLoop pm msg r rest (Some (candidate pm pb)) = Some (candidate pm pb)"
      using Cons.prems(3) 0 by (intro splLoop_scan_none [OF assms]) simp
    with Cons.prems(2) 0 assms show ?thesis by simp
  next
    case (Suc k')
    let ?d = "deltaOf pm (rest ! k')"
    from Cons.prems Suc have k': "k' < length rest"
      and gt: "jgt ?d (bestDeltaOr0 best)"
      and mx: "\<forall>x \<in> set rest. \<not> jgt (deltaOf pm x) ?d"
      and nle: "\<not> jgt (deltaOf pm pb) ?d"
      and ne: "deltaOf pm pb \<noteq> ?d"
      by auto
    have earlier: "\<forall>j<k'. deltaOf pm (rest ! j) \<noteq> ?d"
      using Cons.prems(4) Suc by (auto dest: spec [of _ "Suc j" for j])
    show ?thesis
    proof (cases "jgt (deltaOf pm pb) (bestDeltaOr0 best)")
      case True
      then have "deltaOf pm pb \<noteq> NaN" by (simp add: jgt_not_NaN)
      moreover have "?d \<noteq> NaN" using gt by (simp add: jgt_not_NaN)
      ultimately have "jgt ?d (deltaOf pm pb)" using ne nle by (intro jgt_total) auto
      then have "splLoop pm msg r rest (Some (candidate pm pb)) = Some (candidate pm (rest ! k'))"
        using k' mx earlier by (intro Cons.IH) simp_all
      with True assms Suc show ?thesis by simp
    next
      case False
      have "splLoop pm msg r rest best = Some (candidate pm (rest ! k'))"
        using k' gt mx earlier by (intro Cons.IH) simp_all
      with False assms Suc show ?thesis by simp
    qed
  qed
qed


text \<open>
  Claim C6. With a non-empty recipient, \<^verbatim>\<open>findDeltaSPL\<close> returns at once the first post
  entry, in list order, whose \<^verbatim>\<open>owner\<close> is the recipient or whose account key (the key at
  the entry's \<^verbatim>\<open>accountIndex\<close>) has the recipient's address. The record returned is built
  from that entry and carries its delta, with no condition on the delta: it may be
  positive, zero or negative. The order in which the two tests of one entry are evaluated
  (owner first) has no effect on a pure result; the disjunction is what is proved.
\<close>

theorem findDeltaSPL_expectedRecipient:
  assumes "r \<noteq> []"
  shows "k < length (postEntries m)
         \<and> (owner (postEntries m ! k) = Some r
              \<or> pubkeyAt (accountKeys msg) (int (accountIndex (postEntries m ! k))) = Some r)
         \<and> (\<forall>j<k. owner (postEntries m ! j) \<noteq> Some r
                \<and> pubkeyAt (accountKeys msg) (int (accountIndex (postEntries m ! j))) \<noteq> Some r)
       \<longrightarrow> findDeltaSPL m msg (Some r) =
             Some \<lparr>res_accountIndex = accountIndex (postEntries m ! k),
                   res_mint = mint (postEntries m ! k),
                   res_decimals = decimals (uiTokenAmount (postEntries m ! k)),
                   res_delta = deltaOf (preLookup m) (postEntries m ! k),
                   res_owner = owner (postEntries m ! k)\<rparr>"
proof
  assume h: "k < length (postEntries m)
         \<and> (owner (postEntries m ! k) = Some r
              \<or> pubkeyAt (accountKeys msg) (int (accountIndex (postEntries m ! k))) = Some r)
         \<and> (\<forall>j<k. owner (postEntries m ! j) \<noteq> Some r
                \<and> pubkeyAt (accountKeys msg) (int (accountIndex (postEntries m ! j))) \<noteq> Some r)"
  have t: "truthy (Some r)" using assms by (simp add: truthy_def)
  have "splLoop (preLookup m) msg (Some r) (postEntries m) None
      = Some (candidate (preLookup m) (postEntries m ! k))"
    using h by (intro splLoop_recipient_found [OF t]) simp_all
  then show "findDeltaSPL m msg (Some r) =
             Some \<lparr>res_accountIndex = accountIndex (postEntries m ! k),
                   res_mint = mint (postEntries m ! k),
                   res_decimals = decimals (uiTokenAmount (postEntries m ! k)),
                   res_delta = deltaOf (preLookup m) (postEntries m ! k),
                   res_owner = owner (postEntries m ! k)\<rparr>"
    by (simp add: findDeltaSPL_def candidate_def)
qed

text \<open>
  Claim C10. With a non-empty recipient that no post entry matches, by owner or by the
  address of its account key, \<^verbatim>\<open>findDeltaSPL\<close> returns \<^verbatim>\<open>null\<close>, whatever the deltas of
  the entries are: the best-positive-delta scan does not run.
\<close>

theorem findDeltaSPL_recipient_unmatched:
  assumes "r \<noteq> []"
    and "\<forall>pb \<in> set (postEntries m).
           owner pb \<noteq> Some r \<and> pubkeyAt (accountKeys msg) (int (accountIndex pb)) \<noteq> Some r"
  shows "findDeltaSPL m msg (Some r) = None"
proof -
  have t: "truthy (Some r)" using assms(1) by (simp add: truthy_def)
  show ?thesis
    unfolding findDeltaSPL_def Let_def
    using assms(2) by (rule splLoop_recipient_absent [OF t])
qed

text \<open>
  Claim C4. Without a recipient (\<^verbatim>\<open>undefined\<close> or the empty string), \<^verbatim>\<open>findDeltaSPL\<close>
  returns \<^verbatim>\<open>null\<close> whenever no post entry has a delta strictly greater than 0, entries
  of delta exactly 0 included; and it returns the record of entry \<open>k\<close> whenever that
  entry's delta is strictly positive, no entry has a strictly greater delta, and no
  earlier entry has the same delta (the comparison is strict, so a tie keeps the first).
\<close>

theorem findDeltaSPL_best_scan:
  assumes "\<not> truthy r"
  shows "((\<forall>pb \<in> set (postEntries m). \<not> jgt (deltaOf (preLookup m) pb) (Fin 0))
          \<longrightarrow> findDeltaSPL m msg r = None)
       \<and> (k < length (postEntries m)
          \<and> jgt (deltaOf (preLookup m) (postEntries m ! k)) (Fin 0)
          \<and> (\<forall>pb \<in> set (postEntries m).
                \<not> jgt (deltaOf (preLookup m) pb) (deltaOf (preLookup m) (postEntries m ! k)))
          \<and> (\<forall>j<k. deltaOf (preLookup m) (postEntries m ! j)
                      \<noteq> deltaOf (preLookup m) (postEntries m ! k))
          \<longrightarrow> findDeltaSPL m msg r = Some (candidate (preLookup m) (postEntries m ! k)))"
proof (intro conjI impI)
  assume "\<forall>pb \<in> set (postEntries m). \<not> jgt (deltaOf (preLookup m) pb) (Fin 0)"
  then show "findDeltaSPL m msg r = None"
    unfolding findDeltaSPL_def Let_def
    by (intro splLoop_scan_none [OF assms]) (simp add: bestDeltaOr0_def)
next
  assume h: "k < length (postEntries m)
          \<and> jgt (deltaOf (preLookup m) (postEntries m ! k)) (Fin 0)
          \<and> (\<forall>pb \<in> set (postEntries m).
                \<not> jgt (deltaOf (preLookup m) pb) (deltaOf (preLookup m) (postEntries m ! k)))
          \<and> (\<forall>j<k. deltaOf (preLookup m) (postEntries m ! j)
                      \<noteq> deltaOf (preLookup m) (postEntries m ! k))"
  show "findDeltaSPL m msg r = Some (candidate (preLookup m) (postEntries m ! k))"
    unfolding findDeltaSPL_def Let_def
    using h by (intro splLoop_scan_max [OF assms]) (simp_all add: bestDeltaOr0_def)
qed


lemmas sample_defs = sampleKeys_def sampleMessage_def tokenEntry_def sampleMeta_def

lemmas eval_defs =
  deltaOf_def amountPre_def preMapOf_def key_def decimalString.simps Number_str_def trimBy_def
  isSpace_def isSpaceUnit_def isDigits_def isDigit_def decimalValue_def digitVal_def jsnum_of_int_def
  round53_def orEmpty_def pubkeyAt_def candidate_def truthy_def

lemma sample_deltas:
  "deltaOf (preMapOf [tokenEntry 2 (Some ''C'') ''500''])  (tokenEntry 1 None ''10'') = Fin 10"
  "deltaOf (preMapOf [tokenEntry 2 (Some ''C'') ''500''])  (tokenEntry 2 (Some ''C'') ''300'') = Fin (- 200)"
  by (simp_all add: eval_defs sample_defs)

theorem findDeltaSPL_expectedRecipient_witness:
  "findDeltaSPL
     (sampleMeta [tokenEntry 2 (Some ''C'') ''500'']
                 [tokenEntry 1 None ''10'', tokenEntry 2 (Some ''C'') ''300''])
     sampleMessage (Some ''C'')
   = Some \<lparr>res_accountIndex = 2, res_mint = ''M'', res_decimals = 6, res_delta = Fin (- 200),
           res_owner = Some ''C''\<rparr>
   \<and> findDeltaSPL
     (sampleMeta [tokenEntry 2 (Some ''C'') ''500'']
                 [tokenEntry 1 None ''10'', tokenEntry 2 (Some ''C'') ''300''])
     sampleMessage (Some ''B'')
   = Some \<lparr>res_accountIndex = 1, res_mint = ''M'', res_decimals = 6, res_delta = Fin 10,
           res_owner = None\<rparr>"
proof -
  let ?m = "sampleMeta [tokenEntry 2 (Some ''C'') ''500'']
                 [tokenEntry 1 None ''10'', tokenEntry 2 (Some ''C'') ''300'']"
  have 1: "findDeltaSPL ?m sampleMessage (Some ''C'')
     = Some \<lparr>res_accountIndex = 2, res_mint = ''M'', res_decimals = 6, res_delta = Fin (- 200),
           res_owner = Some ''C''\<rparr>"
    using findDeltaSPL_expectedRecipient [of "''C''" 1 ?m sampleMessage] sample_deltas
    by (simp add: sample_defs orEmpty_def pubkeyAt_def)
  have 2: "findDeltaSPL ?m sampleMessage (Some ''B'')
     = Some \<lparr>res_accountIndex = 1, res_mint = ''M'', res_decimals = 6, res_delta = Fin 10,
           res_owner = None\<rparr>"
    using findDeltaSPL_expectedRecipient [of "''B''" 0 ?m sampleMessage] sample_deltas
    by (simp add: sample_defs orEmpty_def pubkeyAt_def)
  show ?thesis using 1 2 by simp
qed

theorem findDeltaSPL_recipient_unmatched_witness:
  "deltaOf (preMapOf [tokenEntry 2 (Some ''C'') ''500'']) (tokenEntry 1 None ''10'') = Fin 10
   \<and> findDeltaSPL
     (sampleMeta [tokenEntry 2 (Some ''C'') ''500'']
                 [tokenEntry 1 None ''10'', tokenEntry 2 (Some ''C'') ''300''])
     sampleMessage (Some ''A'') = None"
  using findDeltaSPL_recipient_unmatched [of "''A''"
      "sampleMeta [tokenEntry 2 (Some ''C'') ''500'']
                 [tokenEntry 1 None ''10'', tokenEntry 2 (Some ''C'') ''300'']" sampleMessage]
    sample_deltas
  by (simp add: sample_defs orEmpty_def pubkeyAt_def)

lemma sample_scan_deltas:
  "deltaOf (preMapOf [tokenEntry 2 None ''500'']) (tokenEntry 2 None ''500'') = Fin 0"
  "deltaOf (preMapOf [tokenEntry 2 None ''500'']) (tokenEntry 1 None ''0'') = Fin 0"
  "deltaOf (preMapOf []) (tokenEntry 0 None ''3'') = Fin 3"
  "deltaOf (preMapOf []) (tokenEntry 1 None ''7'') = Fin 7"
  "deltaOf (preMapOf []) (tokenEntry 2 None ''7'') = Fin 7"
  by (simp_all add: eval_defs sample_defs)

theorem findDeltaSPL_best_scan_witness:
  "findDeltaSPL
     (sampleMeta [tokenEntry 2 None ''500''] [tokenEntry 2 None ''500'', tokenEntry 1 None ''0''])
     sampleMessage None = None
   \<and> findDeltaSPL
     (sampleMeta [] [tokenEntry 0 None ''3'', tokenEntry 1 None ''7'', tokenEntry 2 None ''7''])
     sampleMessage None
   = Some \<lparr>res_accountIndex = 1, res_mint = ''M'', res_decimals = 6, res_delta = Fin 7,
           res_owner = None\<rparr>"
proof -
  let ?m0 = "sampleMeta [tokenEntry 2 None ''500'']
                [tokenEntry 2 None ''500'', tokenEntry 1 None ''0'']"
  let ?m1 = "sampleMeta [] [tokenEntry 0 None ''3'', tokenEntry 1 None ''7'', tokenEntry 2 None ''7'']"
  have 1: "findDeltaSPL ?m0 sampleMessage None = None"
    using findDeltaSPL_best_scan [of None ?m0 sampleMessage 0] sample_scan_deltas
    by (simp add: truthy_def sampleMeta_def orEmpty_def)
  have 2: "findDeltaSPL ?m1 sampleMessage None
     = Some \<lparr>res_accountIndex = 1, res_mint = ''M'', res_decimals = 6, res_delta = Fin 7,
           res_owner = None\<rparr>"
    using findDeltaSPL_best_scan [of None ?m1 sampleMessage 1] sample_scan_deltas
    by (simp add: truthy_def sampleMeta_def orEmpty_def candidate_def tokenEntry_def)
  show ?thesis using 1 2 by simp
qed

section \<open>Properties of the dispatcher\<close>

text \<open>
  Claim C5. The dispatcher of \<^verbatim>\<open>handleFetch\<close> tests the token result first. When the
  token resolver returns a record whose delta is strictly positive, the report is the
  token report (asset kind SPL), whatever the native resolver returned. Otherwise, when
  the native delta is strictly positive, the report is the native report (asset kind SOL).
  Otherwise the report holds exactly the sender and recipient guesses of
  \<^verbatim>\<open>inferParties\<close>, the asset kind is unknown with no amount, and the recipient shown is
  the inferrer's guess.
\<close>

theorem buildReport_dispatch:
  "(findDeltaSPL m (message res) (recipientArg rcp) = Some s \<and> jgt (res_delta s) (Fin 0)
      \<longrightarrow> buildReport m (message res) rcp =
            ReportSpl (res_mint s) (res_delta s) (res_decimals s)
              (orElse (orElse (Some rcp) (res_owner s))
                 (pubkeyAt (accountKeys (message res)) (int (res_accountIndex s))))
          \<and> asset (analyse sig res m rcp) = AssetSPL (res_mint s) (res_delta s) (res_decimals s))
   \<and> ((\<forall>s'. findDeltaSPL m (message res) (recipientArg rcp) = Some s'
              \<longrightarrow> \<not> jgt (res_delta s') (Fin 0))
       \<and> jgt (deltaLamports (findDeltaSOL m (message res) (recipientArg rcp))) (Fin 0)
      \<longrightarrow> buildReport m (message res) rcp =
            ReportSol (deltaLamports (findDeltaSOL m (message res) (recipientArg rcp)))
              (orElse (Some rcp)
                 (pubkeyAt (accountKeys (message res))
                    (index (findDeltaSOL m (message res) (recipientArg rcp)))))
          \<and> asset (analyse sig res m rcp) =
              AssetSOL (deltaLamports (findDeltaSOL m (message res) (recipientArg rcp))))
   \<and> ((\<forall>s'. findDeltaSPL m (message res) (recipientArg rcp) = Some s'
              \<longrightarrow> \<not> jgt (res_delta s') (Fin 0))
       \<and> \<not> jgt (deltaLamports (findDeltaSOL m (message res) (recipientArg rcp))) (Fin 0)
      \<longrightarrow> buildReport m (message res) rcp = ReportNone (inferParties (message res))
          \<and> asset (analyse sig res m rcp) = AssetUnknown
          \<and> a_recipient (analyse sig res m rcp) = recipient (inferParties (message res)))"
  by (cases "findDeltaSPL m (message res) (recipientArg rcp)")
     (simp_all add: buildReport_def analyse_def Let_def)


lemma sample_native:
  "findDeltaSOL (sampleMeta pre post) sampleMessage (Some ''B'') = \<lparr>index = 1, deltaLamports = Fin 100\<rparr>"
  "findDeltaSOL (sampleMeta pre post) sampleMessage (Some ''C'') = \<lparr>index = 2, deltaLamports = Fin 0\<rparr>"
  by (simp_all add: findDeltaSOL_def solLoop.simps sample_defs truthy_def nthOrZero_def
      pubkeyAt_def jsnum_of_int_def round53_def)

lemma sample_token:
  "findDeltaSPL (sampleMeta [] [tokenEntry 1 (Some ''B'') ''5000000'']) sampleMessage (Some ''B'')
     = Some \<lparr>res_accountIndex = 1, res_mint = ''M'', res_decimals = 6, res_delta = Fin 5000000,
             res_owner = Some ''B''\<rparr>"
  "findDeltaSPL (sampleMeta [] []) sampleMessage r = None"
  by (simp_all add: findDeltaSPL_def eval_defs sample_defs)

theorem buildReport_dispatch_witness:
  "buildReport (sampleMeta [] [tokenEntry 1 (Some ''B'') ''5000000'']) sampleMessage ''B''
     = ReportSpl ''M'' (Fin 5000000) 6 (Some ''B'')
   \<and> deltaLamports
       (findDeltaSOL (sampleMeta [] [tokenEntry 1 (Some ''B'') ''5000000'']) sampleMessage
          (Some ''B'')) = Fin 100
   \<and> buildReport (sampleMeta [] []) sampleMessage ''B'' = ReportSol (Fin 100) (Some ''B'')
   \<and> buildReport (sampleMeta [] []) sampleMessage ''C''
     = ReportNone \<lparr>sender = Some ''A'', recipient = Some ''B''\<rparr>"
proof -
  let ?res = "\<lambda>m. \<lparr>slot = 1, blockTime = None, meta = Some m, message = sampleMessage,
      signatures = []\<rparr>"
  let ?tok = "sampleMeta [] [tokenEntry 1 (Some ''B'') ''5000000'']"
  let ?s = "\<lparr>res_accountIndex = 1, res_mint = ''M'', res_decimals = 6, res_delta = Fin 5000000,
             res_owner = Some ''B''\<rparr>"
  have parties: "inferParties sampleMessage = \<lparr>sender = Some ''A'', recipient = Some ''B''\<rparr>"
    by (simp add: inferParties_def sample_defs pubkeyAt_def)
  have 1: "buildReport ?tok sampleMessage ''B'' = ReportSpl ''M'' (Fin 5000000) 6 (Some ''B'')"
    using buildReport_dispatch [of ?tok "?res ?tok" "''B''" ?s "[]"] sample_token
    by (simp add: recipientArg_def orElse_def truthy_def)
  have 2: "buildReport (sampleMeta [] []) sampleMessage ''B'' = ReportSol (Fin 100) (Some ''B'')"
    using buildReport_dispatch [of "sampleMeta [] []" "?res (sampleMeta [] [])" "''B''" ?s "[]"]
      sample_token sample_native
    by (simp add: recipientArg_def orElse_def truthy_def)
  have 3: "buildReport (sampleMeta [] []) sampleMessage ''C''
     = ReportNone \<lparr>sender = Some ''A'', recipient = Some ''B''\<rparr>"
    using buildReport_dispatch [of "sampleMeta [] []" "?res (sampleMeta [] [])" "''C''" ?s "[]"]
      sample_token sample_native parties
    by (simp add: recipientArg_def)
  show ?thesis using 1 2 3 sample_native by simp
qed

section \<open>Properties of the sender refinement\<close>

text \<open>
  Claim C9 does not hold as stated. \<^verbatim>\<open>instructions.find\<close> stops at the first instruction
  that has a parsed \<^verbatim>\<open>info\<close> object, whether or not that object carries one of the three
  fields. With a first parsed instruction that has none of them and a second one whose
  \<^verbatim>\<open>source\<close> is \<open>S\<close>, the code falls back to the fee payer \<open>A\<close>, where the claim asks
  for \<open>S\<close>.
\<close>

theorem refineSender_first_parsed_counterexample:
  "refineSender
     \<lparr>accountKeys = sampleKeys,
      instructions = [parsedWith None None None, parsedWith (Some ''S'') None None]\<rparr> = Some ''A''
   \<and> spec_refinedSender
     \<lparr>accountKeys = sampleKeys,
      instructions = [parsedWith None None None, parsedWith (Some ''S'') None None]\<rparr> = Some ''S''"
  by (simp add: refineSender_def spec_refinedSender_def carriesSenderField_def parsedWith_def
      hasInfo_def infoOf_def orElse_def truthy_def inferParties_def pubkeyAt_def sampleKeys_def)

lemma find_first_index:
  "k < length xs \<Longrightarrow> P (xs ! k) \<Longrightarrow> (\<forall>j<k. \<not> P (xs ! j)) \<Longrightarrow> find P xs = Some (xs ! k)"
  unfolding find_Some_iff by blast

text \<open>
  Claim C9, amended. The sender is read from the first instruction that has a parsed
  \<^verbatim>\<open>info\<close> object: its \<^verbatim>\<open>source\<close>, else its \<^verbatim>\<open>authority\<close>, else its \<^verbatim>\<open>owner\<close> (the
  first of them that is present and non-empty), else the sender guessed by
  \<^verbatim>\<open>inferParties\<close>. When no instruction has a parsed \<^verbatim>\<open>info\<close> object the sender is the
  guess of \<^verbatim>\<open>inferParties\<close>.
\<close>

theorem refineSender_first_parsed:
  "(k < length (instructions msg) \<and> infoOf (instructions msg ! k) = Some i
      \<and> (\<forall>j<k. infoOf (instructions msg ! j) = None)
     \<longrightarrow> refineSender msg =
           (if truthy (source i) then source i
            else if truthy (authority i) then authority i
            else if truthy (info_owner i) then info_owner i
            else sender (inferParties msg)))
   \<and> ((\<forall>ix \<in> set (instructions msg). infoOf ix = None)
     \<longrightarrow> refineSender msg = sender (inferParties msg))"
proof (intro conjI impI)
  assume h: "k < length (instructions msg) \<and> infoOf (instructions msg ! k) = Some i
      \<and> (\<forall>j<k. infoOf (instructions msg ! j) = None)"
  then have "find hasInfo (instructions msg) = Some (instructions msg ! k)"
    by (intro find_first_index) (simp_all add: hasInfo_def)
  with h show "refineSender msg =
           (if truthy (source i) then source i
            else if truthy (authority i) then authority i
            else if truthy (info_owner i) then info_owner i
            else sender (inferParties msg))"
    by (simp add: refineSender_def orElse_def)
next
  assume "\<forall>ix \<in> set (instructions msg). infoOf ix = None"
  then have "find hasInfo (instructions msg) = None"
    by (simp add: find_None_iff hasInfo_def)
  then show "refineSender msg = sender (inferParties msg)"
    by (simp add: refineSender_def orElse_def truthy_def)
qed

theorem refineSender_first_parsed_witness:
  "refineSender
     \<lparr>accountKeys = sampleKeys,
      instructions = [unparsed, parsedWith None (Some ''U'') (Some ''W''),
                      parsedWith (Some ''S'') None None]\<rparr> = Some ''U''
   \<and> refineSender
     \<lparr>accountKeys = sampleKeys,
      instructions = [unparsed, parsedWith None None None,
                      parsedWith (Some ''S'') None None]\<rparr> = Some ''A''
   \<and> refineSender \<lparr>accountKeys = sampleKeys, instructions = [unparsed]\<rparr> = Some ''A''"
proof -
  let ?i1 = "\<lparr>source = None, authority = Some ''U'', info_owner = Some ''W''\<rparr>"
  let ?i2 = "\<lparr>source = None, authority = None, info_owner = None\<rparr>"
  let ?m1 = "\<lparr>accountKeys = sampleKeys,
      instructions = [unparsed, parsedWith None (Some ''U'') (Some ''W''),
                      parsedWith (Some ''S'') None None]\<rparr>"
  let ?m2 = "\<lparr>accountKeys = sampleKeys,
      instructions = [unparsed, parsedWith None None None,
                      parsedWith (Some ''S'') None None]\<rparr>"
  let ?m3 = "\<lparr>accountKeys = sampleKeys, instructions = [unparsed]\<rparr>"
  have parties: "sender (inferParties \<lparr>accountKeys = sampleKeys, instructions = ins\<rparr>) = Some ''A''"
    for ins
    by (simp add: inferParties_def sampleKeys_def pubkeyAt_def)
  have 1: "refineSender ?m1 = Some ''U''"
    using refineSender_first_parsed [of 1 ?m1 ?i1]
    by (simp add: infoOf_def parsedWith_def unparsed_def truthy_def)
  have 2: "refineSender ?m2 = Some ''A''"
    using refineSender_first_parsed [of 1 ?m2 ?i2] parties
    by (simp add: infoOf_def parsedWith_def unparsed_def truthy_def)
  have 3: "refineSender ?m3 = Some ''A''"
    using refineSender_first_parsed [of 0 ?m3 ?i2] parties
    by (simp add: infoOf_def unparsed_def)
  show ?thesis using 1 2 3 by simp
qed

section \<open>Properties of the signature extraction\<close>

lemma trimBy_id: "s \<noteq> [] \<Longrightarrow> \<not> P (hd s) \<Longrightarrow> \<not> P (last s) \<Longrightarrow> trimBy P s = s"
proof -
  assume a: "s \<noteq> []" "\<not> P (hd s)" "\<not> P (last s)"
  then have 1: "dropWhile P s = s" by (cases s) simp_all
  from a have "rev s \<noteq> []" "\<not> P (hd (rev s))" by (simp_all add: hd_rev)
  then have 2: "dropWhile P (rev s) = rev s" by (cases "rev s") simp_all
  show ?thesis by (simp add: trimBy_def 1 2)
qed

lemma base58_not_space: "isBase58 n \<Longrightarrow> \<not> isSpaceUnit n"
  by (auto simp: isBase58_def isSpaceUnit_def)

lemma trimBy_middle:
  assumes "m \<noteq> []" and "\<not> P (hd m)" and "\<not> P (last m)"
  shows "trimBy P (b @ m @ r) = dropWhile P b @ m @ rev (dropWhile P (rev r))"
proof -
  from assms(1) obtain x xs where m: "m = x # xs" by (cases m) auto
  with assms(2) have "\<not> P x" by simp
  then have 1: "dropWhile P (b @ m @ r) = dropWhile P b @ m @ r"
    unfolding m by (simp add: dropWhile_append3)
  from assms(1) obtain ys y where m2: "m = ys @ [y]" by (cases m rule: rev_cases) auto
  with assms(3) have ny: "\<not> P y" by simp
  have 2: "rev (dropWhile P b @ m @ r) = rev r @ y # (rev ys @ rev (dropWhile P b))"
    by (simp add: m2)
  have 3: "dropWhile P (rev r @ y # (rev ys @ rev (dropWhile P b)))
      = dropWhile P (rev r) @ y # (rev ys @ rev (dropWhile P b))"
    using ny by (rule dropWhile_append3)
  show ?thesis unfolding trimBy_def 1 2 3 by (simp add: m2)
qed

lemma rtrim_head: "rev (dropWhile P (rev r)) = [] \<or> hd (rev (dropWhile P (rev r))) = hd r"
proof -
  have "rev (dropWhile P (rev r)) = take (length r - length (takeWhile P (rev r))) r"
    by (simp add: dropWhile_eq_drop rev_drop)
  then show ?thesis by (cases "length r - length (takeWhile P (rev r))"; cases r) simp_all
qed

lemma sigAt_prefix:
  assumes "list_all isBase58 g" and "length g = 87 \<or> length g = 88"
    and "length g = 88 \<or> r = [] \<or> \<not> isBase58 (hd r)"
  shows "sigAt (g @ r) = Some g"
proof -
  have tw: "takeWhile isBase58 (g @ r) = g @ takeWhile isBase58 r"
    using assms(1) by (simp add: takeWhile_append2 list_all_iff)
  show ?thesis
  proof (cases "length g = 88")
    case True
    then show ?thesis unfolding sigAt_def Let_def tw by simp
  next
    case False
    with assms have l: "length g = 87" and "r = [] \<or> \<not> isBase58 (hd r)" by auto
    then have "takeWhile isBase58 r = []" by (cases r) auto
    with l show ?thesis unfolding sigAt_def Let_def tw by simp
  qed
qed

lemma sigAt_exists:
  assumes "list_all isBase58 g" and "length g = 87 \<or> length g = 88"
  shows "sigAt (g @ r) \<noteq> None"
proof -
  have tw: "takeWhile isBase58 (g @ r) = g @ takeWhile isBase58 r"
    using assms(1) by (simp add: takeWhile_append2 list_all_iff)
  show ?thesis unfolding sigAt_def Let_def tw using assms(2) by auto
qed

lemma sigAt_sound:
  assumes "sigAt s = Some g"
  shows "(length g = 87 \<or> length g = 88) \<and> list_all isBase58 g \<and> (\<exists>rest. s = g @ rest)"
proof -
  let ?n = "length (takeWhile isBase58 s)"
  from assms obtain n where n: "n = 87 \<or> n = 88" "n \<le> ?n" "g = take n s"
    by (auto simp: sigAt_def Let_def split: if_splits)
  have le: "?n \<le> length s" by (rule length_takeWhile_le)
  have "take n s = take n (takeWhile isBase58 s @ dropWhile isBase58 s)" by simp
  also have "\<dots> = take n (takeWhile isBase58 s)" using n(2) by (simp del: takeWhile_dropWhile_id)
  finally have "set g \<subseteq> set (takeWhile isBase58 s)" using n(3) by (simp add: set_take_subset)
  then have "list_all isBase58 g" by (auto simp: list_all_iff dest: set_takeWhileD)
  moreover have "length g = n" using n le by auto
  moreover have "s = g @ drop n s" using n(3) by simp
  ultimately show ?thesis using n(1) by blast
qed

lemma afterLiteral_Some: "afterLiteral lit s = Some rest \<Longrightarrow> s = lit @ rest"
  by (auto simp: afterLiteral_def split: if_splits) (metis append_take_drop_id)

lemma afterLiteral_self: "afterLiteral lit (lit @ rest) = Some rest"
  by (simp add: afterLiteral_def)

lemma sigAfter_sound:
  assumes "sigAfter lit s = Some g"
  shows "(length g = 87 \<or> length g = 88) \<and> list_all isBase58 g \<and> (\<exists>rest. s = lit @ g @ rest)"
proof -
  from assms obtain r where r: "afterLiteral lit s = Some r" "sigAt r = Some g"
    by (auto simp: sigAfter_def split: option.splits)
  from sigAt_sound [OF r(2)] afterLiteral_Some [OF r(1)] show ?thesis by auto
qed

lemma matchAt_sound:
  assumes "matchAt b s = Some g"
  shows "(length g = 87 \<or> length g = 88) \<and> list_all isBase58 g
         \<and> ((b \<and> (\<exists>rest. s = g @ rest)) \<or> (\<exists>lit \<in> explorerLiterals. \<exists>rest. s = lit @ g @ rest))"
proof -
  from assms consider
      "sigAfter (unitsOf ''solscan.io/tx/'') s = Some g"
    | "sigAfter (unitsOf ''explorer.solana.com/tx/'') s = Some g"
    | "sigAfter (unitsOf ''solanafm.com/tx/'') s = Some g"
    | "b" "sigAt s = Some g"
    by (auto simp: matchAt_def split: option.splits if_splits)
  then show ?thesis
  proof cases
    case 1 from sigAfter_sound [OF this] show ?thesis unfolding explorerLiterals_def by blast
  next
    case 2 from sigAfter_sound [OF this] show ?thesis unfolding explorerLiterals_def by blast
  next
    case 3 from sigAfter_sound [OF this] show ?thesis unfolding explorerLiterals_def by blast
  next
    case 4 from sigAt_sound [OF 4(2)] 4(1) show ?thesis by blast
  qed
qed

lemma matchFrom_head: "matchAt b s = Some g \<Longrightarrow> matchFrom b s = Some g"
  by (cases s) simp_all

lemma matchFrom_sound:
  "matchFrom b s = Some g \<Longrightarrow>
     (length g = 87 \<or> length g = 88) \<and> list_all isBase58 g
     \<and> ((b \<and> (\<exists>rest. s = g @ rest))
         \<or> (\<exists>before. \<exists>lit \<in> explorerLiterals. \<exists>rest. s = before @ lit @ g @ rest))"
proof (induction s arbitrary: b)
  case Nil
  then have "matchAt b [] = Some g" by simp
  from matchAt_sound [OF this] show ?case by (metis append_Nil)
next
  case (Cons c cs)
  show ?case
  proof (cases "matchAt b (c # cs)")
    case (Some g')
    with Cons.prems have "matchAt b (c # cs) = Some g" by simp
    from matchAt_sound [OF this] show ?thesis by (metis append_Nil)
  next
    case None
    with Cons.prems have "matchFrom False cs = Some g" by simp
    from Cons.IH [OF this] obtain before lit rest where
      g: "(length g = 87 \<or> length g = 88) \<and> list_all isBase58 g"
      and "lit \<in> explorerLiterals" "cs = before @ lit @ g @ rest"
      by auto
    then have "lit \<in> explorerLiterals" "c # cs = (c # before) @ lit @ g @ rest" by simp_all
    with g show ?thesis by blast
  qed
qed

lemma matchAt_exists:
  assumes "lit \<in> explorerLiterals" and "sigAt rest \<noteq> None"
  shows "matchAt b (lit @ rest) \<noteq> None"
proof -
  have "sigAfter lit (lit @ rest) \<noteq> None"
    using assms(2) by (simp add: sigAfter_def afterLiteral_self)
  with assms(1) show ?thesis
    unfolding matchAt_def explorerLiterals_def by (auto split: option.splits)
qed

lemma matchFrom_exists:
  assumes "lit \<in> explorerLiterals" and "sigAt rest \<noteq> None"
  shows "matchFrom b (before @ lit @ rest) \<noteq> None"
proof (induction before arbitrary: b)
  case Nil
  from matchAt_exists [OF assms] obtain g where "matchAt b (lit @ rest) = Some g" by auto
  then show ?case by (simp add: matchFrom_head)
next
  case (Cons c cs)
  then show ?case by (simp split: option.splits)
qed

lemma takeWhile_append_le: "length (takeWhile P (x @ y)) \<le> length x + length (takeWhile P y)"
  by (induction x) simp_all

lemma literal_facts:
  assumes "lit \<in> explorerLiterals"
  shows "length (takeWhile isBase58 (lit @ t)) \<le> 3"
    and "lit \<noteq> []" and "\<not> isBase58 (last lit)" and "length lit \<le> 23"
    and "\<not> isSpaceUnit (hd lit)" and "\<not> list_all isBase58 lit"
  using assms by (auto simp: explorerLiterals_def unitsOf_def isBase58_def isSpaceUnit_def)

lemma literal_suffix:
  assumes "lit \<in> explorerLiterals" and "lit' \<in> explorerLiterals" and "lit' = x @ lit"
  shows "x = []"
proof -
  from assms(3) have "length lit \<le> length lit'" "drop (length lit' - length lit) lit' = lit"
    "length x = length lit' - length lit"
    by simp_all
  with assms(1,2) show ?thesis
    by (auto simp: explorerLiterals_def unitsOf_def)
qed

lemma sigAt_None: "length (takeWhile isBase58 s) < 87 \<Longrightarrow> sigAt s = None"
  by (simp add: sigAt_def)

lemma sigAfter_none_before:
  assumes x: "x \<noteq> []" "length x \<le> 83"
    and lit: "lit \<in> explorerLiterals" and lit': "lit' \<in> explorerLiterals"
    and G: "list_all isBase58 G" "87 \<le> length G"
  shows "sigAfter lit' (x @ lit @ G @ r) = None"
proof (cases "afterLiteral lit' (x @ lit @ G @ r)")
  case None
  then show ?thesis by (simp add: sigAfter_def)
next
  case (Some rest')
  then have eq: "x @ (lit @ G @ r) = lit' @ rest'" by (simp add: afterLiteral_Some)
  then obtain us where
    "(x = lit' @ us \<and> us @ lit @ G @ r = rest') \<or> (x @ us = lit' \<and> lit @ G @ r = us @ rest')"
    unfolding append_eq_append_conv2 by blast
  then consider (inside) "x = lit' @ us" "us @ lit @ G @ r = rest'"
    | (across) "x @ us = lit'" "lit @ (G @ r) = us @ rest'" by auto
  then have "length (takeWhile isBase58 rest') < 87"
  proof cases
    case inside
    then have "length (takeWhile isBase58 rest') \<le> length us + length (takeWhile isBase58 (lit @ G @ r))"
      and "length us \<le> 83"
      using takeWhile_append_le [of isBase58 us "lit @ G @ r"] x(2) by auto
    with literal_facts(1) [OF lit, of "G @ r"] show ?thesis by linarith
  next
    case across
    from across(2) obtain vs where
      "(lit = us @ vs \<and> vs @ G @ r = rest') \<or> (lit @ vs = us \<and> G @ r = vs @ rest')"
      unfolding append_eq_append_conv2 by blast
    then consider (within) "lit = us @ vs" "vs @ G @ r = rest'"
      | (beyond) "lit @ vs = us" "G @ r = vs @ rest'" by auto
    then show ?thesis
    proof cases
      case within
      show ?thesis
      proof (cases "vs = []")
        case True
        with across(1) within(1) have "lit' = x @ lit" by simp
        from literal_suffix [OF lit lit' this] x(1) show ?thesis by simp
      next
        case False
        with within(1) have "last vs = last lit" by simp
        with literal_facts(3) [OF lit] False have "\<exists>c \<in> set vs. \<not> isBase58 c"
          by (metis last_in_set)
        then obtain c where "c \<in> set vs" "\<not> isBase58 c" by auto
        then have "takeWhile isBase58 (vs @ G @ r) = takeWhile isBase58 vs"
          by (rule takeWhile_append1)
        then have "length (takeWhile isBase58 rest') \<le> length vs"
          using within(2) length_takeWhile_le [of isBase58 vs] by simp
        moreover have "length vs \<le> 23" using within(1) literal_facts(4) [OF lit] by simp
        ultimately show ?thesis by linarith
      qed
    next
      case beyond
      show ?thesis
      proof (cases "vs = []")
        case True
        with across(1) beyond(1) have "lit' = x @ lit" by simp
        from literal_suffix [OF lit lit' this] x(1) show ?thesis by simp
      next
        case False
        from across(1) beyond(1) have l': "lit' = x @ lit @ vs" by simp
        with False have lw: "last lit' = last vs" by simp
        from l' literal_facts(4) [OF lit'] have "length vs \<le> length G" using G(2) by simp
        with beyond(2) have "vs = take (length vs) G"
          by (metis append_eq_append_conv_if append_eq_conv_conj)
        then have "set vs \<subseteq> set G" by (metis set_take_subset)
        moreover from False have "last vs \<in> set vs" by simp
        ultimately have "isBase58 (last vs)" using G(1) by (auto simp: list_all_iff)
        with lw literal_facts(3) [OF lit'] show ?thesis by simp
      qed
    qed
  qed
  with Some show ?thesis by (simp add: sigAfter_def sigAt_None)
qed

lemma matchAt_none_before:
  assumes "x \<noteq> []" "length x \<le> 83" and "lit \<in> explorerLiterals"
    and "list_all isBase58 G" "87 \<le> length G"
  shows "matchAt flag (x @ lit @ G @ r) = None"
proof -
  have lits: "unitsOf ''solscan.io/tx/'' \<in> explorerLiterals"
    "unitsOf ''explorer.solana.com/tx/'' \<in> explorerLiterals"
    "unitsOf ''solanafm.com/tx/'' \<in> explorerLiterals"
    by (simp_all add: explorerLiterals_def)
  have "length (takeWhile isBase58 (x @ lit @ G @ r)) \<le> length x + length (takeWhile isBase58 (lit @ G @ r))"
    by (rule takeWhile_append_le)
  with literal_facts(1) [OF assms(3), of "G @ r"] assms(2)
  have "length (takeWhile isBase58 (x @ lit @ G @ r)) < 87" by linarith
  then have "sigAt (x @ lit @ G @ r) = None" by (rule sigAt_None)
  then show ?thesis
    unfolding matchAt_def
    by (simp only: sigAfter_none_before [OF assms(1,2,3) lits(1) assms(4,5)]
        sigAfter_none_before [OF assms(1,2,3) lits(2) assms(4,5)]
        sigAfter_none_before [OF assms(1,2,3) lits(3) assms(4,5)] option.case if_cancel)
qed

lemma matchFrom_skip:
  "(\<forall>n < length x. matchAt (b \<and> n = 0) (drop n x @ y) = None)
     \<Longrightarrow> matchFrom b (x @ y) = matchFrom (b \<and> x = []) y"
proof (induction x arbitrary: b)
  case Nil
  then show ?case by simp
next
  case (Cons c cs)
  from Cons.prems have 0: "matchAt b (c # cs @ y) = None" by (auto dest: spec [of _ 0])
  have "\<forall>n < length cs. matchAt (False \<and> n = 0) (drop n cs @ y) = None"
  proof (intro allI impI)
    fix n assume "n < length cs"
    with Cons.prems have "matchAt (b \<and> Suc n = 0) (drop (Suc n) (c # cs) @ y) = None"
      by (auto dest: spec [of _ "Suc n"])
    then show "matchAt (False \<and> n = 0) (drop n cs @ y) = None" by simp
  qed
  from Cons.IH [OF this] have "matchFrom False (cs @ y) = matchFrom False y" by simp
  with 0 show ?case by simp
qed

lemma matchAt_literal:
  assumes "lit \<in> explorerLiterals" and "sigAt rest = Some g"
  shows "matchAt b (lit @ rest) = Some g"
proof -
  have 1: "sigAfter lit (lit @ rest) = Some g"
    by (simp add: sigAfter_def afterLiteral_self assms(2))
  from assms(1) consider "lit = unitsOf ''solscan.io/tx/''"
    | "lit = unitsOf ''explorer.solana.com/tx/''"
    | "lit = unitsOf ''solanafm.com/tx/''" by (auto simp: explorerLiterals_def)
  then show ?thesis
  proof cases
    case 1
    with \<open>sigAfter lit (lit @ rest) = Some g\<close> show ?thesis by (simp add: matchAt_def)
  next
    case 2
    have "sigAfter (unitsOf ''solscan.io/tx/'') (lit @ rest) = None"
      unfolding 2 by (simp add: sigAfter_def afterLiteral_def unitsOf_def)
    with 1 2 show ?thesis by (simp add: matchAt_def)
  next
    case 3
    have "sigAfter (unitsOf ''solscan.io/tx/'') (lit @ rest) = None"
      "sigAfter (unitsOf ''explorer.solana.com/tx/'') (lit @ rest) = None"
      unfolding 3 by (simp_all add: sigAfter_def afterLiteral_def unitsOf_def)
    with 1 3 show ?thesis by (simp add: matchAt_def)
  qed
qed

lemma afterLiteral_base58:
  assumes "list_all isBase58 G" and "length lit \<le> length G" and "\<not> list_all isBase58 lit"
  shows "afterLiteral lit (G @ r) = None"
proof (rule ccontr)
  assume "afterLiteral lit (G @ r) \<noteq> None"
  then obtain rest where "afterLiteral lit (G @ r) = Some rest" by auto
  then have "G @ r = lit @ rest" by (rule afterLiteral_Some)
  with assms(2) have "lit = take (length lit) G"
    by (metis append_eq_append_conv_if append_eq_conv_conj)
  then have "set lit \<subseteq> set G" by (metis set_take_subset)
  with assms(1,3) show False by (auto simp: list_all_iff)
qed

lemma matchAt_raw:
  assumes "list_all isBase58 G" and "87 \<le> length G" and "sigAt (G @ r) = Some g"
  shows "matchAt True (G @ r) = Some g"
proof -
  have "sigAfter lit (G @ r) = None" if "lit \<in> explorerLiterals" for lit
  proof -
    from literal_facts(4) [OF that] assms(2) have "length lit \<le> length G" by simp
    from afterLiteral_base58 [OF assms(1) this literal_facts(6) [OF that]]
    show ?thesis by (simp add: sigAfter_def)
  qed
  then have "sigAfter (unitsOf ''solscan.io/tx/'') (G @ r) = None"
    "sigAfter (unitsOf ''explorer.solana.com/tx/'') (G @ r) = None"
    "sigAfter (unitsOf ''solanafm.com/tx/'') (G @ r) = None"
    by (simp_all add: explorerLiterals_def)
  then show ?thesis unfolding matchAt_def by (simp add: assms(3))
qed

lemma rtrim_end:
  assumes "length g = 88 \<or> rest = [] \<or> \<not> isBase58 (hd rest)"
  shows "length g = 88 \<or> rev (dropWhile P (rev rest)) = []
         \<or> \<not> isBase58 (hd (rev (dropWhile P (rev rest))))"
  using assms rtrim_head [of P rest] by auto

lemma parseSignature_raw:
  assumes "list_all isBase58 g" and "length g = 87 \<or> length g = 88"
    and "list_all isSpaceUnit pad"
    and "length g = 88 \<or> rest = [] \<or> \<not> isBase58 (hd rest)"
  shows "parseSignature (pad @ g @ rest) = Some g"
proof -
  let ?r = "rev (dropWhile isSpaceUnit (rev rest))"
  from assms(2) have ne: "g \<noteq> []" by auto
  with assms(1) have "isBase58 (hd g)" "isBase58 (last g)" by (auto simp: list_all_iff)
  then have "trimBy isSpaceUnit (pad @ g @ rest) = dropWhile isSpaceUnit pad @ g @ ?r"
    using ne by (intro trimBy_middle) (simp_all add: base58_not_space)
  moreover have "dropWhile isSpaceUnit pad = []" using assms(3) by (simp add: list_all_iff)
  ultimately have t: "trimBy isSpaceUnit (pad @ g @ rest) = g @ ?r" by simp
  have "sigAt (g @ ?r) = Some g"
    by (rule sigAt_prefix [OF assms(1,2) rtrim_end [OF assms(4)]])
  then have "matchAt True (g @ ?r) = Some g"
    using assms(1,2) by (intro matchAt_raw) auto
  then have "matchFrom True (g @ ?r) = Some g" by (rule matchFrom_head)
  with ne show ?thesis by (simp add: parseSignature_def t)
qed

lemma trim_around_url:
  assumes "list_all isBase58 g" and "length g = 87 \<or> length g = 88"
    and "lit \<in> explorerLiterals"
  shows "trimBy isSpaceUnit (before @ lit @ g @ rest)
         = dropWhile isSpaceUnit before @ lit @ g @ rev (dropWhile isSpaceUnit (rev rest))"
proof -
  from assms(2) have ne: "g \<noteq> []" by auto
  with assms(1) have "isBase58 (last g)" by (auto simp: list_all_iff)
  then have "\<not> isSpaceUnit (last (lit @ g))" using ne by (simp add: base58_not_space)
  moreover have "\<not> isSpaceUnit (hd (lit @ g))"
    using literal_facts(2,5) [OF assms(3)] by simp
  ultimately have "trimBy isSpaceUnit (before @ (lit @ g) @ rest)
         = dropWhile isSpaceUnit before @ (lit @ g) @ rev (dropWhile isSpaceUnit (rev rest))"
    using ne by (intro trimBy_middle) simp_all
  then show ?thesis by simp
qed

lemma parseSignature_url_exists:
  assumes "list_all isBase58 g" and "length g = 87 \<or> length g = 88"
    and "lit \<in> explorerLiterals"
  shows "\<exists>sig. parseSignature (before @ lit @ g @ rest) = Some sig"
proof -
  let ?b = "dropWhile isSpaceUnit before"
  let ?r = "rev (dropWhile isSpaceUnit (rev rest))"
  have "matchFrom True (?b @ lit @ (g @ ?r)) \<noteq> None"
    by (rule matchFrom_exists [OF assms(3) sigAt_exists [OF assms(1,2)]])
  moreover have "?b @ lit @ g @ ?r \<noteq> []" using literal_facts(2) [OF assms(3)] by simp
  ultimately show ?thesis
    by (simp add: parseSignature_def trim_around_url [OF assms])
qed

lemma parseSignature_url_exact:
  assumes "list_all isBase58 g" and "length g = 87 \<or> length g = 88"
    and "lit \<in> explorerLiterals" and "length before \<le> 83"
    and "length g = 88 \<or> rest = [] \<or> \<not> isBase58 (hd rest)"
  shows "parseSignature (before @ lit @ g @ rest) = Some g"
proof -
  let ?b = "dropWhile isSpaceUnit before"
  let ?r = "rev (dropWhile isSpaceUnit (rev rest))"
  have lb: "length ?b \<le> 83" using assms(4) length_dropWhile_le [of isSpaceUnit before] by linarith
  have G: "87 \<le> length g" using assms(2) by auto
  have "\<forall>n < length ?b. matchAt (True \<and> n = 0) (drop n ?b @ lit @ g @ ?r) = None"
  proof (intro allI impI)
    fix n assume "n < length ?b"
    then have "drop n ?b \<noteq> []" "length (drop n ?b) \<le> 83" using lb by simp_all
    then show "matchAt (True \<and> n = 0) (drop n ?b @ lit @ g @ ?r) = None"
      using assms(1,3) G by (intro matchAt_none_before)
  qed
  then have "matchFrom True (?b @ lit @ g @ ?r) = matchFrom (True \<and> ?b = []) (lit @ g @ ?r)"
    by (rule matchFrom_skip)
  moreover have "sigAt (g @ ?r) = Some g"
    by (rule sigAt_prefix [OF assms(1,2) rtrim_end [OF assms(5)]])
  then have "matchFrom (True \<and> ?b = []) (lit @ g @ ?r) = Some g"
    by (intro matchFrom_head matchAt_literal [OF assms(3)])
  moreover have "?b @ lit @ g @ ?r \<noteq> []" using literal_facts(2) [OF assms(3)] by simp
  ultimately show ?thesis
    by (simp add: parseSignature_def trim_around_url [OF assms(1,2,3)])
qed

text \<open>
  Claim C7 does not hold as stated: the quantifier of the pattern is \<^verbatim>\<open>{87,88}\<close>, so a
  base58 string of 84 characters is not recognised.
\<close>

theorem parseSignature_84_counterexample:
  "length ''MASi45ub7Qe4ZE36UT5G6cU4ud8Fhhe4deS4F3cw9KTAb8dLcukC7edhDQ7cn5d4gEYkbUrMWeWQLGsCmrG6'' = 84
   \<and> list_all isBase58
       (unitsOf ''MASi45ub7Qe4ZE36UT5G6cU4ud8Fhhe4deS4F3cw9KTAb8dLcukC7edhDQ7cn5d4gEYkbUrMWeWQLGsCmrG6'')
   \<and> parseSignature
       (unitsOf ''MASi45ub7Qe4ZE36UT5G6cU4ud8Fhhe4deS4F3cw9KTAb8dLcukC7edhDQ7cn5d4gEYkbUrMWeWQLGsCmrG6'')
     = None"
  by (simp add: parseSignature_def trimBy_def isSpaceUnit_def matchAt_def sigAfter_def
      afterLiteral_def sigAt_def isBase58_def unitsOf_def)

text \<open>
  Claim C7, amended to signatures of 87 to 88 characters. The alphabet leaves out the
  characters 0, O, I and l. Let \<open>g\<close> be a run of 87 or 88 base58 characters.
  \<^item> Raw input: \<open>g\<close> is accepted as it is, also with white space before it and with any
    text after it, provided \<open>g\<close> has 88 characters or the text after it does not go on
    with a base58 character (which would belong to the signature).
  \<^item> URL input: whatever stands before one of the three explorer paths and whatever
    follows \<open>g\<close>, an input that holds \<open>g\<close> right after the path yields a signature; and
    it yields \<open>g\<close> itself when at most 83 characters stand before the path (so no earlier
    run of 87 base58 characters can match first) and \<open>g\<close> ends as above.
  \<^item> Whatever \<^verbatim>\<open>parseSignature\<close> returns is a run of 87 or 88 base58 characters that
    stands at the start of the trimmed input or right after one of the three explorer
    paths, and it is the signature sent to the node.
  \<^item> When nothing is recognised, \<^verbatim>\<open>handleFetch\<close> stops with the validation message and
    has made no RPC call.
\<close>

theorem parseSignature_contract:
  "\<not> isBase58 (of_char CHR ''0'') \<and> \<not> isBase58 (of_char CHR ''O'')
   \<and> \<not> isBase58 (of_char CHR ''I'') \<and> \<not> isBase58 (of_char CHR ''l'')
   \<and> (list_all isBase58 g \<and> (length g = 87 \<or> length g = 88)
      \<longrightarrow> (list_all isSpaceUnit pad \<and> (length g = 88 \<or> rest = [] \<or> \<not> isBase58 (hd rest))
            \<longrightarrow> parseSignature (pad @ g @ rest) = Some g)
          \<and> (\<forall>lit \<in> explorerLiterals.
                (\<exists>sig. parseSignature (before @ lit @ g @ rest) = Some sig)
                \<and> (length before \<le> 83 \<and> (length g = 88 \<or> rest = [] \<or> \<not> isBase58 (hd rest))
                   \<longrightarrow> parseSignature (before @ lit @ g @ rest) = Some g)))
   \<and> (parseSignature input = Some sig
      \<longrightarrow> (length sig = 87 \<or> length sig = 88) \<and> list_all isBase58 sig
          \<and> ((\<exists>tail. trimBy isSpaceUnit input = sig @ tail)
              \<or> (\<exists>front. \<exists>lit \<in> explorerLiterals. \<exists>tail.
                    trimBy isSpaceUnit input = front @ lit @ sig @ tail))
          \<and> rpcCalls (handleFetch rpc input rcp st) = rpcCalls st @ [sig])
   \<and> (parseSignature input = None
      \<longrightarrow> handleFetch rpc input rcp st
            = st\<lparr>error := Some ValidTxLink, tx := None, analysis := None\<rparr>
          \<and> rpcCalls (handleFetch rpc input rcp st) = rpcCalls st)"
proof (intro conjI impI ballI)
  show "\<not> isBase58 (of_char CHR ''0'')" "\<not> isBase58 (of_char CHR ''O'')"
    "\<not> isBase58 (of_char CHR ''I'')" "\<not> isBase58 (of_char CHR ''l'')"
    by (simp_all add: isBase58_def)
next
  assume "list_all isBase58 g \<and> (length g = 87 \<or> length g = 88)"
    and "list_all isSpaceUnit pad \<and> (length g = 88 \<or> rest = [] \<or> \<not> isBase58 (hd rest))"
  then show "parseSignature (pad @ g @ rest) = Some g" by (intro parseSignature_raw) simp_all
next
  fix lit
  assume "list_all isBase58 g \<and> (length g = 87 \<or> length g = 88)" "lit \<in> explorerLiterals"
  then show "\<exists>sig. parseSignature (before @ lit @ g @ rest) = Some sig"
    by (intro parseSignature_url_exists) simp_all
next
  fix lit
  assume "list_all isBase58 g \<and> (length g = 87 \<or> length g = 88)" "lit \<in> explorerLiterals"
    and "length before \<le> 83 \<and> (length g = 88 \<or> rest = [] \<or> \<not> isBase58 (hd rest))"
  then show "parseSignature (before @ lit @ g @ rest) = Some g"
    by (intro parseSignature_url_exact) simp_all
next
  assume h: "parseSignature input = Some sig"
  then have "matchFrom True (trimBy isSpaceUnit input) = Some sig"
    by (simp add: parseSignature_def Let_def split: if_splits)
  from matchFrom_sound [OF this]
  show "length sig = 87 \<or> length sig = 88" and "list_all isBase58 sig"
    and "(\<exists>tail. trimBy isSpaceUnit input = sig @ tail)
              \<or> (\<exists>front. \<exists>lit \<in> explorerLiterals. \<exists>tail.
                    trimBy isSpaceUnit input = front @ lit @ sig @ tail)"
    by blast+
  then have "sig \<noteq> []" by auto
  with h show "rpcCalls (handleFetch rpc input rcp st) = rpcCalls st @ [sig]"
    by (simp add: handleFetch_def Let_def split: RpcResult.splits option.splits)
next
  assume h: "parseSignature input = None"
  then show "handleFetch rpc input rcp st
            = st\<lparr>error := Some ValidTxLink, tx := None, analysis := None\<rparr>"
    by (simp add: handleFetch_def)
  from h show "rpcCalls (handleFetch rpc input rcp st) = rpcCalls st"
    by (simp add: handleFetch_def)
qed

theorem parseSignature_contract_witness:
  "parseSignature ([160, 32] @ unitsOf sampleSignature @ [10]) = Some (unitsOf sampleSignature)
   \<and> parseSignature
       (unitsOf ''http://www.'' @ unitsOf ''solscan.io/tx/'' @ unitsOf sampleSignature
          @ unitsOf ''?cluster=devnet'') = Some (unitsOf sampleSignature)
   \<and> rpcCalls (handleFetch (\<lambda>s. RpcReturns None) (unitsOf sampleSignature) [] idleState)
     = [unitsOf sampleSignature]
   \<and> handleFetch (\<lambda>s. RpcReturns None) (unitsOf ''not a signature'') [] idleState =
       \<lparr>error = Some ValidTxLink, tx = None, analysis = None, loading = False, rpcCalls = []\<rparr>"
proof -
  let ?g = "unitsOf sampleSignature"
  have ok: "list_all isBase58 ?g \<and> (length ?g = 87 \<or> length ?g = 88)"
    by (simp add: sampleSignature_def isBase58_def unitsOf_def)
  have lit: "unitsOf ''solscan.io/tx/'' \<in> explorerLiterals"
    by (simp add: explorerLiterals_def)
  have none: "parseSignature (unitsOf ''not a signature'') = None"
    by (simp add: parseSignature_def trimBy_def isSpaceUnit_def matchAt_def sigAfter_def
        afterLiteral_def sigAt_def isBase58_def unitsOf_def)
  have pad: "list_all isSpaceUnit [160, 32] \<and> (length ?g = 88 \<or> [10] = [] \<or> \<not> isBase58 (hd [10]))"
    by (simp add: isSpaceUnit_def isBase58_def)
  have raw: "parseSignature ([160, 32] @ ?g @ [10]) = Some ?g"
    using parseSignature_contract [where g = ?g and pad = "[160, 32]" and rest = "[10]"
        and input = "unitsOf ''not a signature''"] ok pad
    by blast
  have short: "length (unitsOf ''http://www.'') \<le> 83
      \<and> (length ?g = 88 \<or> unitsOf ''?cluster=devnet'' = []
          \<or> \<not> isBase58 (hd (unitsOf ''?cluster=devnet'')))"
    by (simp add: unitsOf_def isBase58_def)
  have url: "parseSignature (unitsOf ''http://www.'' @ unitsOf ''solscan.io/tx/'' @ ?g
          @ unitsOf ''?cluster=devnet'') = Some ?g"
    using parseSignature_contract [where g = ?g and before = "unitsOf ''http://www.''"
        and rest = "unitsOf ''?cluster=devnet''" and input = "unitsOf ''not a signature''"]
      ok lit short
    by blast
  have plain: "parseSignature ?g = Some ?g"
    using parseSignature_contract [where g = ?g and pad = "[]" and rest = "[]"
        and input = "unitsOf ''not a signature''"] ok
    by simp
  have calls: "rpcCalls (handleFetch (\<lambda>s. RpcReturns None) ?g [] idleState) = [?g]"
    using parseSignature_contract [where g = ?g and input = ?g and sig = ?g
        and rpc = "\<lambda>s. RpcReturns None" and rcp = "[]" and st = idleState] plain
    by (simp add: idleState_def)
  have blocked: "handleFetch (\<lambda>s. RpcReturns None) (unitsOf ''not a signature'') [] idleState =
       \<lparr>error = Some ValidTxLink, tx = None, analysis = None, loading = False, rpcCalls = []\<rparr>"
    using parseSignature_contract [where g = ?g and input = "unitsOf ''not a signature''"
        and rpc = "\<lambda>s. RpcReturns None" and rcp = "[]" and st = idleState] none
    by (simp add: idleState_def)
  from raw url calls blocked show ?thesis by simp
qed

section \<open>Precision of the token delta\<close>

lemma bits_2_53: "bits 9007199254740992 = 54"
  by (simp add: bits.simps)

lemma round53_pow: "round53 (2 ^ 53) = 2 ^ 53" "round53 (- (2 ^ 53)) = - (2 ^ 53)"
  by (simp_all add: round53_def bits_2_53 Let_def)

lemma round53_exact: "\<bar>x\<bar> \<le> 2 ^ 53 \<Longrightarrow> round53 x = x"
proof -
  assume a: "\<bar>x\<bar> \<le> 2 ^ 53"
  show ?thesis
  proof (cases "\<bar>x\<bar> < 2 ^ 53")
    case True
    then show ?thesis by (simp add: round53_def)
  next
    case False
    with a have "x = 2 ^ 53 \<or> x = - (2 ^ 53)" by linarith
    then show ?thesis using round53_pow by metis
  qed
qed

lemma jsnum_of_int_exact: "\<bar>x\<bar> \<le> 2 ^ 53 \<Longrightarrow> jsnum_of_int x = Fin x"
proof -
  assume a: "\<bar>x\<bar> \<le> 2 ^ 53"
  have "(2::int) ^ 53 < 2 ^ 1024" by (rule power_strict_increasing) simp_all
  with a have "\<not> 2 ^ 1024 \<le> x" "\<not> x \<le> - (2 ^ 1024)" by linarith+
  then show ?thesis
    unfolding jsnum_of_int_def round53_exact [OF a] Let_def by (simp only: if_False)
qed

lemma digit_not_space: "isDigit c \<Longrightarrow> \<not> isSpace c"
  by (auto simp: isDigit_def isSpace_def isSpaceUnit_def)

lemma Number_str_digits: "isDigits s \<Longrightarrow> Number_str s = jsnum_of_int (decimalValue s)"
proof -
  assume d: "isDigits s"
  then have ne: "s \<noteq> []" and all: "\<forall>c \<in> set s. isDigit c"
    by (simp_all add: isDigits_def list_all_iff)
  then have "isDigit (hd s)" "isDigit (last s)" by simp_all
  then have "trimBy isSpace s = s" using ne by (intro trimBy_id) (simp_all add: digit_not_space)
  with d ne show ?thesis by (simp add: Number_str_def)
qed

lemma foldl_decimal_nonneg:
  "0 \<le> a \<Longrightarrow> \<forall>c \<in> set s. isDigit c \<Longrightarrow> 0 \<le> foldl (\<lambda>a c. 10 * a + digitVal c) a s"
proof (induction s arbitrary: a)
  case Nil
  then show ?case by simp
next
  case (Cons c s)
  then have "0 \<le> digitVal c" by (simp add: digitVal_def isDigit_def)
  with Cons.prems have "0 \<le> 10 * a + digitVal c" by simp
  with Cons show ?case by simp
qed

lemma decimalValue_nonneg: "isDigits s \<Longrightarrow> 0 \<le> decimalValue s"
  by (simp add: decimalValue_def isDigits_def list_all_iff foldl_decimal_nonneg)

lemma decimalValue_snoc: "decimalValue (s @ [c]) = 10 * decimalValue s + digitVal c"
  by (simp add: decimalValue_def)

lemma digitVal_char_of: "(d::nat) < 10 \<Longrightarrow> digitVal (char_of (48 + d)) = int d"
  by (simp add: digitVal_def)

lemma decimalValue_decimalString: "decimalValue (decimalString n) = int n"
proof (induction n rule: decimalString.induct)
  case (1 n)
  show ?case
  proof (cases "n < 10")
    case True
    then show ?thesis
      by (subst decimalString.simps) (simp add: decimalValue_def digitVal_char_of)
  next
    case False
    with 1 have "decimalValue (decimalString (n div 10)) = int (n div 10)" by simp
    with False show ?thesis
      by (subst decimalString.simps)
        (simp add: decimalValue_snoc digitVal_char_of zdiv_int zmod_int)
  qed
qed

lemma isDigit_char_of: "(d::nat) < 10 \<Longrightarrow> isDigit (char_of (48 + d))"
  by (simp add: isDigit_def)

lemma decimalString_digits: "\<forall>c \<in> set (decimalString n). isDigit c"
proof (induction n rule: decimalString.induct)
  case (1 n)
  show ?case
  proof (cases "n < 10")
    case True
    then show ?thesis by (subst decimalString.simps) (simp add: isDigit_char_of)
  next
    case False
    with 1 have "\<forall>c \<in> set (decimalString (n div 10)). isDigit c" by simp
    with False show ?thesis by (subst decimalString.simps) (simp add: isDigit_char_of)
  qed
qed

lemma decimalString_inject: "decimalString a = decimalString b \<Longrightarrow> a = b"
proof -
  assume "decimalString a = decimalString b"
  then have "decimalValue (decimalString a) = decimalValue (decimalString b)" by simp
  then show "a = b" by (simp only: decimalValue_decimalString of_nat_eq_iff)
qed

lemma colon_not_digit: "\<not> isDigit CHR '':''"
  by (simp add: isDigit_def)

lemma split_at_colon:
  assumes "\<forall>c \<in> set xs. isDigit c" and "\<forall>c \<in> set ys. isDigit c"
    and "xs @ CHR '':'' # u = ys @ CHR '':'' # v"
  shows "xs = ys \<and> u = v"
proof -
  have "takeWhile isDigit (xs @ CHR '':'' # u) = xs" "takeWhile isDigit (ys @ CHR '':'' # v) = ys"
    using assms(1,2) by (simp_all add: takeWhile_append2 colon_not_digit)
  with assms(3) have "xs = ys" by simp
  with assms(3) show ?thesis by simp
qed

lemma key_eq_iff: "key p = key q \<longleftrightarrow> accountIndex p = accountIndex q \<and> mint p = mint q"
proof
  assume "key p = key q"
  then have "decimalString (accountIndex p) @ CHR '':'' # mint p
      = decimalString (accountIndex q) @ CHR '':'' # mint q"
    by (simp add: key_def)
  from split_at_colon [OF decimalString_digits decimalString_digits this]
  show "accountIndex p = accountIndex q \<and> mint p = mint q"
    by (simp add: decimalString_inject)
next
  assume "accountIndex p = accountIndex q \<and> mint p = mint q"
  then show "key p = key q" by (simp add: key_def)
qed

lemma find_app:
  "find P (xs @ ys) = (case find P xs of None \<Rightarrow> find P ys | Some x \<Rightarrow> Some x)"
  by (induction xs) simp_all

lemma foldl_upd_lookup:
  "foldl (\<lambda>mp b. mp(f b \<mapsto> b)) mp0 xs k =
     (case find (\<lambda>b. f b = k) (rev xs) of None \<Rightarrow> mp0 k | Some b \<Rightarrow> Some b)"
  by (induction xs rule: rev_induct) simp_all

lemma preMapOf_lookup:
  "preMapOf pre (key pb) =
     find (\<lambda>p. accountIndex p = accountIndex pb \<and> mint p = mint pb) (rev pre)"
  by (simp add: preMapOf_def foldl_upd_lookup key_eq_iff split: option.splits)


lemma Number_str_exact:
  assumes "isDigits s" and "decimalValue s \<le> 2 ^ 53"
  shows "Number_str s = Fin (decimalValue s)"
proof -
  from decimalValue_nonneg [OF assms(1)] assms(2) have "\<bar>decimalValue s\<bar> \<le> 2 ^ 53" by simp
  then show ?thesis by (simp only: Number_str_digits [OF assms(1)] jsnum_of_int_exact)
qed

lemma deltaOf_exact:
  assumes pre: "\<forall>b \<in> set pre. isDigits (amount (uiTokenAmount b))
                  \<and> decimalValue (amount (uiTokenAmount b)) \<le> 2 ^ 53"
    and pb: "isDigits (amount (uiTokenAmount pb))" "decimalValue (amount (uiTokenAmount pb)) \<le> 2 ^ 53"
  shows "deltaOf (preMapOf pre) pb = Fin (spec_deltaRaw pre pb)"
proof -
  let ?a = "decimalValue (amount (uiTokenAmount pb))"
  let ?f = "find (\<lambda>p. accountIndex p = accountIndex pb \<and> mint p = mint pb) (rev pre)"
  have post: "Number_str (amount (uiTokenAmount pb)) = Fin ?a"
    using pb by (rule Number_str_exact)
  have a: "0 \<le> ?a" "?a \<le> 2 ^ 53" using pb decimalValue_nonneg by simp_all
  show ?thesis
  proof (cases ?f)
    case None
    have "\<bar>?a - 0\<bar> \<le> 2 ^ 53" using a by simp
    then have "jsnum_of_int (?a - 0) = Fin (?a - 0)" by (rule jsnum_of_int_exact)
    with None post show ?thesis
      by (simp add: deltaOf_def amountPre_def preMapOf_lookup spec_deltaRaw_def)
  next
    case (Some p)
    then have "p \<in> set pre" by (metis find_Some_iff nth_mem set_rev)
    with pre have p: "isDigits (amount (uiTokenAmount p))"
      "decimalValue (amount (uiTokenAmount p)) \<le> 2 ^ 53" by simp_all
    let ?b = "decimalValue (amount (uiTokenAmount p))"
    have b: "0 \<le> ?b" "?b \<le> 2 ^ 53" using p decimalValue_nonneg by simp_all
    have "\<bar>?a - ?b\<bar> \<le> 2 ^ 53" using a b by linarith
    then have "jsnum_of_int (?a - ?b) = Fin (?a - ?b)" by (rule jsnum_of_int_exact)
    with Some post Number_str_exact [OF p] show ?thesis
      by (simp add: deltaOf_def amountPre_def preMapOf_lookup spec_deltaRaw_def)
  qed
qed

lemma splLoop_result:
  "splLoop pm msg r post best = Some s \<Longrightarrow>
     best = Some s \<or> (\<exists>pb \<in> set post. s = candidate pm pb)"
proof (induction post arbitrary: best)
  case Nil
  then show ?case by simp
next
  case (Cons pb rest)
  show ?case
  proof (cases "truthy r")
    case True
    show ?thesis
    proof (cases "owner pb = r \<or> pubkeyAt (accountKeys msg) (int (accountIndex pb)) = r")
      case True
      with \<open>truthy r\<close> Cons.prems have "s = candidate pm pb" by simp
      then show ?thesis by simp
    next
      case False
      with \<open>truthy r\<close> Cons.prems have "splLoop pm msg r rest best = Some s" by simp
      from Cons.IH [OF this] show ?thesis by auto
    qed
  next
    case False
    show ?thesis
    proof (cases "jgt (deltaOf pm pb) (bestDeltaOr0 best)")
      case True
      with \<open>\<not> truthy r\<close> Cons.prems
      have "splLoop pm msg r rest (Some (candidate pm pb)) = Some s" by simp
      from Cons.IH [OF this] show ?thesis by auto
    next
      case nogt: False
      with \<open>\<not> truthy r\<close> Cons.prems have "splLoop pm msg r rest best = Some s" by simp
      from Cons.IH [OF this] show ?thesis by auto
    qed
  qed
qed

lemma bits_2_53_plus_1: "bits 9007199254740993 = 54"
  by (simp add: bits.simps)

lemma round53_2_53_plus_1: "round53 9007199254740993 = 9007199254740992"
  by (simp add: round53_def Let_def bits_2_53_plus_1)

lemma Number_str_2_53_plus_1: "Number_str ''9007199254740993'' = Fin 9007199254740992"
  by (simp add: Number_str_def trimBy_def isSpace_def isSpaceUnit_def isDigits_def isDigit_def
      decimalValue_def digitVal_def jsnum_of_int_def round53_2_53_plus_1)

text \<open>
  Claim C1 does not hold as stated: \<^verbatim>\<open>Number(...)\<close> turns each amount into a double, which
  has 53 significant bits. The raw amount \<open>2\<^sup>5\<^sup>3 + 1 = 9007199254740993\<close>, well inside the
  64-bit range, becomes 9007199254740992, and so does the delta against an absent
  pre-state record, where the exact difference is 9007199254740993.
\<close>

theorem tokenDelta_precision_counterexample:
  "findDeltaSPL (sampleMeta [] [tokenEntry 2 (Some ''C'') ''9007199254740993'']) sampleMessage None
     = Some \<lparr>res_accountIndex = 2, res_mint = ''M'', res_decimals = 6,
             res_delta = Fin 9007199254740992, res_owner = Some ''C''\<rparr>
   \<and> spec_deltaRaw [] (tokenEntry 2 (Some ''C'') ''9007199254740993'') = 9007199254740993"
proof -
  have v: "decimalValue ''9007199254740993'' = 9007199254740993"
    by (simp add: decimalValue_def digitVal_def)
  have z: "jsnum_of_int 9007199254740992 = Fin 9007199254740992"
    using jsnum_of_int_exact [of 9007199254740992] by simp
  show ?thesis
    by (simp add: findDeltaSPL_def sample_defs orEmpty_def preMapOf_def deltaOf_def amountPre_def
        candidate_def truthy_def bestDeltaOr0_def spec_deltaRaw_def Number_str_2_53_plus_1 v z)
qed

text \<open>
  Claim C1, amended to amounts up to \<open>2\<^sup>5\<^sup>3 = 9007199254740992\<close>. When every raw amount
  in the pre and post lists is a string of decimal digits whose value is at most \<open>2\<^sup>5\<^sup>3\<close>,
  the delta computed for each post entry is the exact integer difference
  \<open>rawAmount(post) - rawAmount(pre-or-zero)\<close>, and the delta of any record that
  \<^verbatim>\<open>findDeltaSPL\<close> returns is that exact difference for the post entry it was built from.
\<close>

theorem tokenDelta_exact_up_to_2_53:
  assumes "\<forall>b \<in> set (postEntries m) \<union> set (orEmpty (preTokenBalances m)).
             isDigits (amount (uiTokenAmount b)) \<and> decimalValue (amount (uiTokenAmount b)) \<le> 2 ^ 53"
  shows "(\<forall>pb \<in> set (postEntries m).
            deltaOf (preLookup m) pb = Fin (spec_deltaRaw (orEmpty (preTokenBalances m)) pb))
       \<and> (findDeltaSPL m msg r = Some s \<longrightarrow>
            (\<exists>pb \<in> set (postEntries m).
               res_accountIndex s = accountIndex pb \<and> res_mint s = mint pb
               \<and> res_delta s = Fin (spec_deltaRaw (orEmpty (preTokenBalances m)) pb)))"
proof (intro conjI ballI impI)
  fix pb
  assume "pb \<in> set (postEntries m)"
  with assms show "deltaOf (preLookup m) pb = Fin (spec_deltaRaw (orEmpty (preTokenBalances m)) pb)"
    by (intro deltaOf_exact) simp_all
next
  assume "findDeltaSPL m msg r = Some s"
  then have "splLoop (preLookup m) msg r (postEntries m) None = Some s"
    by (simp add: findDeltaSPL_def)
  from splLoop_result [OF this] obtain pb where
    pb: "pb \<in> set (postEntries m)" "s = candidate (preLookup m) pb" by auto
  with assms have "deltaOf (preLookup m) pb = Fin (spec_deltaRaw (orEmpty (preTokenBalances m)) pb)"
    by (intro deltaOf_exact) simp_all
  with pb show "\<exists>pb \<in> set (postEntries m).
               res_accountIndex s = accountIndex pb \<and> res_mint s = mint pb
               \<and> res_delta s = Fin (spec_deltaRaw (orEmpty (preTokenBalances m)) pb)"
    by (auto simp: candidate_def)
qed

theorem tokenDelta_exact_up_to_2_53_witness:
  "deltaOf (preMapOf [tokenEntry 2 (Some ''C'') ''9007199254740992''])
     (tokenEntry 2 (Some ''C'') ''1'') = Fin (- 9007199254740991)
   \<and> deltaOf (preMapOf [tokenEntry 2 (Some ''C'') ''9007199254740992''])
     (tokenEntry 1 (Some ''B'') ''9007199254740992'') = Fin 9007199254740992"
proof -
  let ?pre = "[tokenEntry 2 (Some ''C'') ''9007199254740992'']"
  let ?post = "[tokenEntry 2 (Some ''C'') ''1'', tokenEntry 1 (Some ''B'') ''9007199254740992'']"
  have v: "decimalValue ''9007199254740992'' = 9007199254740992" "decimalValue ''1'' = 1"
    by (simp_all add: decimalValue_def digitVal_def)
  have d: "isDigits ''9007199254740992''" "isDigits ''1''"
    by (simp_all add: isDigits_def isDigit_def)
  have "\<forall>pb \<in> set (postEntries (sampleMeta ?pre ?post)).
            deltaOf (preLookup (sampleMeta ?pre ?post)) pb
              = Fin (spec_deltaRaw (orEmpty (preTokenBalances (sampleMeta ?pre ?post))) pb)"
    using tokenDelta_exact_up_to_2_53 [of "sampleMeta ?pre ?post" sampleMessage None undefined] v d
    by (simp add: sampleMeta_def orEmpty_def tokenEntry_def)
  then show ?thesis
    using v by (simp add: sampleMeta_def orEmpty_def tokenEntry_def spec_deltaRaw_def)
qed

end
